theory Spec2Isabelle
  imports Main
begin

section \<open>Data model\<close>

text \<open>
  The record store holds projects and previews. The fields are the ones the
  services read and write through the store client. Nullable columns are
  options. \<open>buildNumber\<close> is a counter with default 1 that is never null;
  pull-request numbers, ports and the counter are natural numbers (the upper
  limit of the store's integer columns is not modelled). Timestamps are
  clock readings.
\<close>

datatype preview_status = Building | Live | Error | Deleted

record project =
  project_id :: string
  repoOwner :: string
  repoName :: string
  userId :: string

record preview =
  preview_id :: string
  projectId :: string
  prNumber :: nat
  status :: preview_status
  url :: "string option"
  port :: "nat option"
  containerName :: "string option"
  buildNumber :: nat
  buildStartedAt :: "nat option"
  buildCompletedAt :: "nat option"
  buildLogs :: "string option"

section \<open>Container naming (dockerService.js, generateContainerName)\<close>

text \<open>
  Template literals render a number in decimal. \<open>showNat\<close> is that rendering
  for the non-negative integers the store keeps.
\<close>

definition digitChar :: "nat \<Rightarrow> char" where
  "digitChar d = char_of (48 + d)"

function showNat :: "nat \<Rightarrow> string" where
  "showNat n = (if n < 10 then [digitChar n] else showNat (n div 10) @ [digitChar (n mod 10)])"
  by pat_completeness auto
termination
  by (relation "measure (\<lambda>n. n)") auto

declare showNat.simps [simp del]

text \<open>
  \<open>toLowerCase\<close> on the code units of the name: the letters A to Z move to
  a to z, every other unit that matters here stays (a unit outside ASCII is
  replaced by a hyphen in the next step whatever its lower case is).
\<close>

definition toLowerChar :: "char \<Rightarrow> char" where
  "toLowerChar c =
     (let n = (of_char c :: nat) in if 65 \<le> n \<and> n \<le> 90 then char_of (n + 32) else c)"

text \<open>The replacement \<open>/[^a-z0-9\-]/g\<close> by a hyphen, one code unit at a time.\<close>

definition allowedChar :: "char \<Rightarrow> bool" where
  "allowedChar c =
     (let n = (of_char c :: nat) in (97 \<le> n \<and> n \<le> 122) \<or> (48 \<le> n \<and> n \<le> 57) \<or> n = 45)"

definition sanitizeChar :: "char \<Rightarrow> char" where
  "sanitizeChar c = (if allowedChar c then c else CHR ''-'')"

definition sanitize :: "string \<Rightarrow> string" where
  "sanitize s = map sanitizeChar (map toLowerChar s)"

definition generateContainerName :: "project \<Rightarrow> nat \<Rightarrow> nat \<Rightarrow> string" where
  "generateContainerName proj prNum buildNum =
     (let projectIdShort = take 8 (project_id proj);
          base = ''preview-p'' @ projectIdShort @ ''-pr'' @ showNat prNum @ ''-b'' @ showNat buildNum
      in sanitize base)"

section \<open>Errors, the environment and the record store\<close>

text \<open>
  Everything the services throw is a value of \<open>error\<close>; \<open>errMessage\<close> is the
  \<open>message\<close> of the thrown object. The text of the store client's own error is
  not part of this repository and is fixed here to its usual wording.
\<close>

datatype error =
    RecordNotFound
  | PreviewRowNotFound string
  | PortExhausted
  | CommandFailed nat
  | ProcessError string
  | CloneFailed string
  | EmitFailed

definition errMessage :: "error \<Rightarrow> string" where
  "errMessage err =
     (case err of
        RecordNotFound \<Rightarrow> ''Record to update not found.''
      | PreviewRowNotFound i \<Rightarrow> ''Preview row not found: '' @ i
      | PortExhausted \<Rightarrow> ''No free ports available in configured range (4000-4999)''
      | CommandFailed c \<Rightarrow> ''Command failed with exit code '' @ showNat c
      | ProcessError m \<Rightarrow> m
      | CloneFailed m \<Rightarrow> m
      | EmitFailed \<Rightarrow> ''socket emit failed'')"

text \<open>\<open>err?.message || String(err)\<close>: an empty message falls back to the error's name.\<close>

definition errDetail :: "error \<Rightarrow> string" where
  "errDetail err = (if errMessage err = [] then ''Error'' else errMessage err)"

text \<open>
  The collaborators outside the services are parameters of the model: the
  operating system's answer to a loopback bind, the clone service, the child
  processes (their output chunks in arrival order and how they ended), the
  socket transport (whether an emit at a given call site throws), the clock
  (one reading per call site), the resolved path of the build template and
  the id the store gives a created row.
\<close>

text \<open>
  A child process ends with an exit code or with an error event (a process
  killed by a signal, which has no exit code, is not modelled).
\<close>

datatype proc_end = Exit nat | SpawnError string

datatype emit_site =
    LogChunk | LogFinish | LogError
  | OpenSyncBuilding | OpenSyncLive | OpenSyncError
  | ClosedDeleted
  | RebuildBuilding | RebuildUpdated | RebuildFailed
  | DeleteUpdated

datatype clock_site =
    BuildStarted | BuildCompleted | BuildFailedAt
  | RebuildStarted | RebuildFailedAt | DeletedAt

record env =
  osPortFree :: "nat \<Rightarrow> bool"
  cloneResult :: "string \<Rightarrow> string \<Rightarrow> string option \<Rightarrow> string + string"
  execOutcome :: "string \<Rightarrow> string list \<times> proc_end"
  emitThrows :: "emit_site \<Rightarrow> bool"
  now :: "clock_site \<Rightarrow> nat"
  dockerfilePath :: string
  newId :: string

record store =
  projects :: "project list"
  previews :: "preview list"

definition findUnique :: "string \<Rightarrow> store \<Rightarrow> preview option" where
  "findUnique i s = find (\<lambda>p. preview_id p = i) (previews s)"

definition findProject :: "string \<Rightarrow> store \<Rightarrow> project option" where
  "findProject i s = find (\<lambda>q. project_id q = i) (projects s)"

definition findByPR :: "string \<Rightarrow> nat \<Rightarrow> store \<Rightarrow> preview option" where
  "findByPR projId prNum s = find (\<lambda>p. projectId p = projId \<and> prNumber p = prNum) (previews s)"

definition setRow :: "string \<Rightarrow> (preview \<Rightarrow> preview) \<Rightarrow> store \<Rightarrow> store" where
  "setRow i f s = s\<lparr>previews := map (\<lambda>p. if preview_id p = i then f p else p) (previews s)\<rparr>"

text \<open>\<open>prisma.preview.update\<close>: throws when no row has the id.\<close>

definition updatePreview :: "string \<Rightarrow> (preview \<Rightarrow> preview) \<Rightarrow> store \<Rightarrow> error + store" where
  "updatePreview i f s =
     (case findUnique i s of None \<Rightarrow> Inl RecordNotFound | Some _ \<Rightarrow> Inr (setRow i f s))"

text \<open>
  \<open>prisma.preview.upsert\<close> on the key (projectId, prNumber): the existing row
  gets status building, a missing row is created with the column defaults.
\<close>

definition upsertPreview :: "env \<Rightarrow> store \<Rightarrow> project \<Rightarrow> nat \<Rightarrow> preview \<times> store" where
  "upsertPreview e s proj prNum =
     (case findByPR (project_id proj) prNum s of
        Some pv \<Rightarrow> (pv\<lparr>status := Building\<rparr>, setRow (preview_id pv) (\<lambda>p. p\<lparr>status := Building\<rparr>) s)
      | None \<Rightarrow>
          (let pv = \<lparr>preview_id = newId e, projectId = project_id proj, prNumber = prNum,
                     status = Building, url = None, port = None, containerName = None,
                     buildNumber = 1, buildStartedAt = None, buildCompletedAt = None,
                     buildLogs = None\<rparr>
           in (pv, s\<lparr>previews := previews s @ [pv]\<rparr>)))"

definition emit :: "env \<Rightarrow> emit_site \<Rightarrow> error + unit" where
  "emit e site = (if emitThrows e site then Inl EmitFailed else Inr ())"

definition cloneRepo :: "env \<Rightarrow> string \<Rightarrow> string \<Rightarrow> string option \<Rightarrow> error + string" where
  "cloneRepo e owner name ref =
     (case cloneResult e owner name ref of Inl m \<Rightarrow> Inl (CloneFailed m) | Inr path \<Rightarrow> Inr path)"

section \<open>Process runner and log buffer (dockerService.js, run and push)\<close>

text \<open>An emit inside \<open>try { ... } catch { }\<close>: whatever it throws is dropped.\<close>

definition tryEmit :: "env \<Rightarrow> emit_site \<Rightarrow> unit" where
  "tryEmit e site = (case emit e site of Inl _ \<Rightarrow> () | Inr _ \<Rightarrow> ())"

text \<open>\<open>push\<close> appends the chunk to the log buffer and emits it inside a try/catch.\<close>

definition push :: "env \<Rightarrow> string \<Rightarrow> string \<Rightarrow> string" where
  "push e logs chunk = (let _ = tryEmit e LogChunk in logs @ chunk)"

text \<open>
  \<open>run\<close> feeds every chunk to \<open>push\<close>, resolves on exit code 0 and rejects on any
  other code or on the child's error event.
\<close>

definition run :: "env \<Rightarrow> string \<Rightarrow> string \<Rightarrow> (error + unit) \<times> string" where
  "run e command logs =
     (case execOutcome e command of
        (chunks, ending) \<Rightarrow>
          (let logs' = foldl (push e) logs chunks
           in case ending of
                Exit c \<Rightarrow> (if c = 0 then (Inr (), logs') else (Inl (CommandFailed c), logs'))
              | SpawnError m \<Rightarrow> (Inl (ProcessError m), logs')))"

section \<open>Port allocation (dockerService.js)\<close>

definition isPortFree :: "env \<Rightarrow> nat \<Rightarrow> bool" where
  "isPortFree e p = osPortFree e p"

definition portReservedInDB :: "store \<Rightarrow> nat \<Rightarrow> bool" where
  "portReservedInDB s p =
     (case find (\<lambda>q. port q = Some p \<and> status q \<noteq> Deleted) (previews s) of
        None \<Rightarrow> False | Some _ \<Rightarrow> True)"

text \<open>
  The loop of \<open>findAvailablePort\<close> from candidate \<open>p\<close> on. The three checks are
  the store query, the loopback bind and the store query again. The store as
  the first query reads it (\<open>s\<close>) and as the re-query reads it (\<open>s2\<close>) are
  separate arguments of the loop.
\<close>

function portScan :: "env \<Rightarrow> store \<Rightarrow> store \<Rightarrow> nat \<Rightarrow> nat \<Rightarrow> error + nat" where
  "portScan e s s2 p maxPort =
     (if p \<le> maxPort then
        (if portReservedInDB s p then portScan e s s2 (Suc p) maxPort
         else if \<not> isPortFree e p then portScan e s s2 (Suc p) maxPort
         else if portReservedInDB s2 p then portScan e s s2 (Suc p) maxPort
         else Inr p)
      else Inl PortExhausted)"
  by pat_completeness auto
termination
  by (relation "measure (\<lambda>(e, s, s2, p, maxPort). Suc maxPort - p)") auto

declare portScan.simps [simp del]

text \<open>
  Nothing else writes to the store while one operation of this model runs, so
  both queries of \<open>findAvailablePort\<close> read the same store.
\<close>

definition findAvailablePort :: "env \<Rightarrow> store \<Rightarrow> nat \<Rightarrow> nat \<Rightarrow> error + nat" where
  "findAvailablePort e s minPort maxPort = portScan e s s minPort maxPort"

section \<open>The build flow (dockerService.js, buildPreview)\<close>

definition nl :: string where
  "nl = [CHR 0x0A]"

definition dq :: string where
  "dq = [CHR 0x22]"

definition baseName :: "project \<Rightarrow> nat \<Rightarrow> string" where
  "baseName proj prNum = sanitize (repoOwner proj @ ''-'' @ repoName proj @ ''-pr-'' @ showNat prNum)"

definition buildCommand :: "env \<Rightarrow> project \<Rightarrow> nat \<Rightarrow> string \<Rightarrow> string" where
  "buildCommand e proj prNum repoPath =
     ''docker build -t '' @ baseName proj prNum @ '' -f '' @ dq @ dockerfilePath e @ dq @
     '' '' @ dq @ repoPath @ dq"

definition runCommand :: "project \<Rightarrow> nat \<Rightarrow> string \<Rightarrow> nat \<Rightarrow> string" where
  "runCommand proj prNum cName assignedPort =
     ''docker run -d --name '' @ cName @ '' -p '' @ showNat assignedPort @ '':80 '' @
     baseName proj prNum"

text \<open>Find a free port in the range and save it on the preview row at once.\<close>

definition reservePort :: "env \<Rightarrow> store \<Rightarrow> string \<Rightarrow> nat \<Rightarrow> nat \<Rightarrow> error + nat \<times> store" where
  "reservePort e s previewId minPort maxPort =
     (case findAvailablePort e s minPort maxPort of
        Inl err \<Rightarrow> Inl err
      | Inr freePort \<Rightarrow>
          (case updatePreview previewId (\<lambda>p. p\<lparr>port := Some freePort\<rparr>) s of
             Inl err \<Rightarrow> Inl err
           | Inr s' \<Rightarrow> Inr (freePort, s')))"

text \<open>
  "Assign or revalidate port": no recorded port (null, or 0, which is falsy)
  allocates in 5000 to 5999; a recorded port that still binds is reused; a
  recorded port that no longer binds is replaced by one from 4000 to 4999.
\<close>

definition assignPort :: "env \<Rightarrow> store \<Rightarrow> string \<Rightarrow> preview \<Rightarrow> error + nat \<times> store" where
  "assignPort e s previewId pv =
     (case port pv of
        None \<Rightarrow> reservePort e s previewId 5000 5999
      | Some assignedPort \<Rightarrow>
          (if assignedPort = 0 then reservePort e s previewId 5000 5999
           else if isPortFree e assignedPort then Inr (assignedPort, s)
           else reservePort e s previewId 4000 4999))"

text \<open>The name a build attempt derives from the row it loaded.\<close>

definition attemptContainerName :: "project \<Rightarrow> nat \<Rightarrow> preview \<Rightarrow> string" where
  "attemptContainerName proj prNum pv =
     (let nextBuildNumber = (if buildNumber pv = 0 then 1 else buildNumber pv)
      in generateContainerName proj prNum nextBuildNumber)"

text \<open>
  The body of the try block. It returns the outcome, the store as the updates
  so far left it, and the log buffer at that moment.
\<close>

definition buildAttempt ::
  "env \<Rightarrow> store \<Rightarrow> project \<Rightarrow> string \<Rightarrow> string \<Rightarrow> nat \<Rightarrow> preview \<Rightarrow> string \<Rightarrow>
   (error + string) \<times> store \<times> string" where
  "buildAttempt e s proj previewId repoPath prNum pv cName =
     (case assignPort e s previewId pv of
        Inl err \<Rightarrow> (Inl err, s, [])
      | Inr (assignedPort, s1) \<Rightarrow>
          (case updatePreview previewId
                  (\<lambda>p. p\<lparr>containerName := Some cName, buildNumber := buildNumber p + 1\<rparr>) s1 of
             Inl err \<Rightarrow> (Inl err, s1, [])
           | Inr s2 \<Rightarrow>
               (let buildCmd = buildCommand e proj prNum repoPath;
                    logs1 = push e [] (nl @ ''> '' @ buildCmd @ nl)
                in case run e buildCmd logs1 of
                     (Inl err, logs2) \<Rightarrow> (Inl err, s2, logs2)
                   | (Inr _, logs2) \<Rightarrow>
                       (let runCmd = runCommand proj prNum cName assignedPort;
                            logs3 = push e logs2 (nl @ ''> '' @ runCmd @ nl)
                        in case run e runCmd logs3 of
                             (Inl err, logs4) \<Rightarrow> (Inl err, s2, logs4)
                           | (Inr _, logs4) \<Rightarrow>
                               (let u = ''http://localhost:'' @ showNat assignedPort
                                in case updatePreview previewId
                                          (\<lambda>p. p\<lparr>status := Live, url := Some u,
                                                 buildLogs := Some logs4,
                                                 buildCompletedAt := Some (now e BuildCompleted)\<rparr>) s2 of
                                     Inl err \<Rightarrow> (Inl err, s2, logs4)
                                   | Inr s3 \<Rightarrow> (Inr u, s3, logs4))))))"

text \<open>
  The catch block: one update marks the row as failed; when that update
  throws, the error is logged and the row stays as it was.
\<close>

definition markError :: "env \<Rightarrow> store \<Rightarrow> string \<Rightarrow> string \<Rightarrow> error \<Rightarrow> store" where
  "markError e s previewId logs err =
     (case updatePreview previewId
             (\<lambda>p. p\<lparr>status := Error,
                    buildLogs := Some (logs @ nl @ nl @ ''ERROR:'' @ nl @ errDetail err),
                    buildCompletedAt := Some (now e BuildFailedAt),
                    port := None\<rparr>) s of
        Inl _ \<Rightarrow> s
      | Inr s' \<Rightarrow> s')"

text \<open>
  \<open>buildPreview\<close>. The emits of log-finish and log-error are inside try/catch.
  Removing stale containers cannot throw and does not touch the store.
\<close>

definition markBuildStart :: "env \<Rightarrow> preview \<Rightarrow> preview" where
  "markBuildStart e p = p\<lparr>status := Building, buildStartedAt := Some (now e BuildStarted)\<rparr>"

definition buildPreview ::
  "env \<Rightarrow> store \<Rightarrow> project \<Rightarrow> string \<Rightarrow> string \<Rightarrow> nat \<Rightarrow> (error + string) \<times> store" where
  "buildPreview e s proj previewId repoPath prNum =
     (case updatePreview previewId (markBuildStart e) s of
        Inl err \<Rightarrow> (Inl err, s)
      | Inr s0 \<Rightarrow>
          (case findUnique previewId s0 of
             None \<Rightarrow> (Inl (PreviewRowNotFound previewId), s0)
           | Some pv \<Rightarrow>
               (case buildAttempt e s0 proj previewId repoPath prNum pv
                       (attemptContainerName proj prNum pv) of
                  (Inr u, s', logs) \<Rightarrow>
                    (let _ = tryEmit e LogFinish in (Inr u, s'))
                | (Inl err, s', logs) \<Rightarrow>
                    (let s'' = markError e s' previewId logs err;
                         _ = tryEmit e LogError
                     in (Inl err, s'')))))"

section \<open>Pull-request handlers (prHandlers.js)\<close>

text \<open>
  The emits of the handlers are not inside a try/catch of their own. An emit
  that throws inside the try block runs the catch block, whose own emit may
  throw in turn.
\<close>

definition handlePROpenOrSync ::
  "env \<Rightarrow> store \<Rightarrow> project \<Rightarrow> nat \<Rightarrow> string option \<Rightarrow> (error + unit) \<times> store" where
  "handlePROpenOrSync e s proj prNum ref =
     (case upsertPreview e s proj prNum of
        (pv, s1) \<Rightarrow>
          (case emit e OpenSyncBuilding of
             Inl err \<Rightarrow> (Inl err, s1)
           | Inr _ \<Rightarrow>
               (case cloneRepo e (repoOwner proj) (repoName proj) ref of
                  Inl err \<Rightarrow> (Inl err, s1)
                | Inr repoPath \<Rightarrow>
                    (case buildPreview e s1 proj (preview_id pv) repoPath prNum of
                       (Inr u, s2) \<Rightarrow>
                         (case emit e OpenSyncLive of
                            Inr _ \<Rightarrow> (Inr (), s2)
                          | Inl err \<Rightarrow>
                              (case emit e OpenSyncError of
                                 Inl err2 \<Rightarrow> (Inl err2, s2)
                               | Inr _ \<Rightarrow> (Inl err, s2)))
                     | (Inl err, s2) \<Rightarrow>
                         (case emit e OpenSyncError of
                            Inl err2 \<Rightarrow> (Inl err2, s2)
                          | Inr _ \<Rightarrow> (Inl err, s2))))))"

definition handlePRClosed ::
  "env \<Rightarrow> store \<Rightarrow> project \<Rightarrow> nat \<Rightarrow> (error + unit) \<times> store" where
  "handlePRClosed e s proj prNum =
     (case findByPR (project_id proj) prNum s of
        None \<Rightarrow> (Inr (), s)
      | Some pv \<Rightarrow>
          (case updatePreview (preview_id pv) (\<lambda>p. p\<lparr>status := Deleted, url := None\<rparr>) s of
             Inl err \<Rightarrow> (Inl err, s)
           | Inr s1 \<Rightarrow>
               (case emit e ClosedDeleted of
                  Inl err \<Rightarrow> (Inl err, s1)
                | Inr _ \<Rightarrow> (Inr (), s1))))"

section \<open>Preview actions (previewActions.js)\<close>

datatype response =
    Unauthorized401
  | NotFound404
  | Forbidden403
  | RebuildOk string
  | BuildFailed500
  | Unexpected500
  | DeleteOk
  | DeleteFailed500

text \<open>The inner catch of the rebuild route; what it throws reaches the outer catch.\<close>

definition rebuildFailed :: "env \<Rightarrow> store \<Rightarrow> string \<Rightarrow> response \<times> store" where
  "rebuildFailed e s i =
     (case updatePreview i
             (\<lambda>p. p\<lparr>status := Error, buildCompletedAt := Some (now e RebuildFailedAt),
                    url := None, containerName := None\<rparr>) s of
        Inl _ \<Rightarrow> (Unexpected500, s)
      | Inr s' \<Rightarrow>
          (case findUnique i s' of
             None \<Rightarrow> (Unexpected500, s')
           | Some _ \<Rightarrow>
               (case emit e RebuildFailed of
                  Inl _ \<Rightarrow> (Unexpected500, s')
                | Inr _ \<Rightarrow> (BuildFailed500, s'))))"

text \<open>"Immediately mark building": the fields the rebuild route writes first.\<close>

definition markRebuild :: "env \<Rightarrow> preview \<Rightarrow> preview" where
  "markRebuild e p =
     p\<lparr>status := Building, url := None, buildStartedAt := Some (now e RebuildStarted),
       buildCompletedAt := None\<rparr>"

definition rebuild :: "env \<Rightarrow> store \<Rightarrow> string option \<Rightarrow> string \<Rightarrow> response \<times> store" where
  "rebuild e s reqUser i =
     (case reqUser of
        None \<Rightarrow> (Unauthorized401, s)
      | Some uid \<Rightarrow>
     (case findUnique i s of
        None \<Rightarrow> (NotFound404, s)
      | Some pv \<Rightarrow>
     (case findProject (projectId pv) s of
        None \<Rightarrow> (Unexpected500, s)
      | Some proj \<Rightarrow>
          if userId proj \<noteq> uid then (Forbidden403, s)
          else
     (case updatePreview i (markRebuild e) s of
        Inl _ \<Rightarrow> (Unexpected500, s)
      | Inr s1 \<Rightarrow>
     (case emit e RebuildBuilding of
        Inl _ \<Rightarrow> (Unexpected500, s1)
      | Inr _ \<Rightarrow>
     (case cloneRepo e (repoOwner proj) (repoName proj) None of
        Inl _ \<Rightarrow> (Unexpected500, s1)
      | Inr repoPath \<Rightarrow>
     (case buildPreview e s1 proj i repoPath (prNumber pv) of
        (Inr u, s2) \<Rightarrow>
          (case findUnique i s2 of
             None \<Rightarrow> rebuildFailed e s2 i
           | Some _ \<Rightarrow>
               (case emit e RebuildUpdated of
                  Inl _ \<Rightarrow> rebuildFailed e s2 i
                | Inr _ \<Rightarrow> (RebuildOk u, s2)))
      | (Inl err, s2) \<Rightarrow> rebuildFailed e s2 i)))))))"

definition deletePreview :: "env \<Rightarrow> store \<Rightarrow> string option \<Rightarrow> string \<Rightarrow> response \<times> store" where
  "deletePreview e s reqUser i =
     (case reqUser of
        None \<Rightarrow> (Unauthorized401, s)
      | Some uid \<Rightarrow>
     (case findUnique i s of
        None \<Rightarrow> (NotFound404, s)
      | Some pv \<Rightarrow>
     (case findProject (projectId pv) s of
        None \<Rightarrow> (DeleteFailed500, s)
      | Some proj \<Rightarrow>
          if userId proj \<noteq> uid then (Forbidden403, s)
          else
     (case updatePreview i
             (\<lambda>p. p\<lparr>status := Deleted, url := None, containerName := None,
                    buildCompletedAt := Some (now e DeletedAt)\<rparr>) s of
        Inl _ \<Rightarrow> (DeleteFailed500, s)
      | Inr s1 \<Rightarrow>
          (case findUnique i s1 of
             None \<Rightarrow> (DeleteFailed500, s1)
           | Some _ \<Rightarrow>
               (case emit e DeleteUpdated of
                  Inl _ \<Rightarrow> (DeleteFailed500, s1)
                | Inr _ \<Rightarrow> (DeleteOk, s1)))))))"

section \<open>Notions used in the statements\<close>

text \<open>Reading a decimal numeral back, the inverse of \<open>showNat\<close>.\<close>

definition digitVal :: "char \<Rightarrow> nat" where
  "digitVal c = of_char c - 48"

definition readNat :: "string \<Rightarrow> nat" where
  "readNat s = foldl (\<lambda>a c. 10 * a + digitVal c) 0 s"

text \<open>The errors a child process can end a build attempt with.\<close>

definition processFailure :: "error \<Rightarrow> bool" where
  "processFailure err =
     (case err of CommandFailed c \<Rightarrow> c \<noteq> 0 | ProcessError m \<Rightarrow> True | _ \<Rightarrow> False)"

text \<open>The log text the catch block persists: the buffer, then the failure detail.\<close>

definition errorText :: "string \<Rightarrow> error \<Rightarrow> string" where
  "errorText logs err = logs @ nl @ nl @ ''ERROR:'' @ nl @ errDetail err"

text \<open>
  The status invariant as the code keeps it: a live preview has a url and a
  port, a deleted preview has no url. \<open>storeInv\<close> says it of every row the
  store returns for an id.
\<close>

definition previewInv :: "preview \<Rightarrow> bool" where
  "previewInv p =
     ((status p = Live \<longrightarrow> url p \<noteq> None \<and> port p \<noteq> None) \<and>
      (status p = Deleted \<longrightarrow> url p = None))"

definition storeInv :: "store \<Rightarrow> bool" where
  "storeInv s = (\<forall>j p. findUnique j s = Some p \<longrightarrow> previewInv p)"

text \<open>
  The build counter of every row the store returns for an id is at least 1,
  the column default.
\<close>

definition counterInv :: "store \<Rightarrow> bool" where
  "counterInv s = (\<forall>j p. findUnique j s = Some p \<longrightarrow> 0 < buildNumber p)"

section \<open>Example inputs\<close>

definition exProject :: project where
  "exProject = \<lparr>project_id = ''ckv9x2a1b0000'', repoOwner = ''Acme'', repoName = ''web'',
                 userId = ''u1''\<rparr>"

text \<open>An environment in which every collaborator succeeds.\<close>

definition okEnv :: env where
  "okEnv = \<lparr>osPortFree = (\<lambda>p. True), cloneResult = (\<lambda>owner name ref. Inr ''/tmp/repo''),
            execOutcome = (\<lambda>c. ([''out''], Exit 0)), emitThrows = (\<lambda>site. False),
            now = (\<lambda>site. 100), dockerfilePath = ''/app/deploy-templates/vite.Dockerfile'',
            newId = ''pv1''\<rparr>"

text \<open>A live preview that holds port 5007, and the store with that one row.\<close>

definition livePreview :: preview where
  "livePreview = \<lparr>preview_id = ''pv1'', projectId = ''ckv9x2a1b0000'', prNumber = 42,
     status = Live, url = Some ''http://localhost:5007'', port = Some 5007,
     containerName = Some ''preview-pckv9x2a1-pr42-b1'', buildNumber = 2,
     buildStartedAt = Some 10, buildCompletedAt = Some 20, buildLogs = Some ''log''\<rparr>"

definition liveStore :: store where
  "liveStore = \<lparr>projects = [exProject], previews = [livePreview]\<rparr>"

definition emptyStore :: store where
  "emptyStore = \<lparr>projects = [exProject], previews = []\<rparr>"

text \<open>
  The allocator scenario: port 5000 is held by a live preview of the store,
  port 5001 is bound by a process the store does not know.
\<close>

definition scenarioStore :: store where
  "scenarioStore = \<lparr>projects = [exProject], previews = [livePreview\<lparr>port := Some 5000\<rparr>]\<rparr>"

definition scenarioEnv :: env where
  "scenarioEnv = okEnv\<lparr>osPortFree := (\<lambda>p. p \<noteq> 5001)\<rparr>"

text \<open>Environments in which one collaborator fails.\<close>

definition cloneFailEnv :: env where
  "cloneFailEnv = okEnv\<lparr>cloneResult := (\<lambda>owner name ref. Inl ''clone failed'')\<rparr>"

definition noPortEnv :: env where
  "noPortEnv = okEnv\<lparr>osPortFree := (\<lambda>p. False)\<rparr>"

definition buildFailEnv :: env where
  "buildFailEnv = okEnv\<lparr>execOutcome := (\<lambda>c. ([''boom''], Exit 1))\<rparr>"

text \<open>Port 5007, which the live preview holds, is bound by something else.\<close>

definition clashEnv :: env where
  "clashEnv = okEnv\<lparr>osPortFree := (\<lambda>p. p \<noteq> 5007)\<rparr>"

text \<open>The transport throws on two of the status events.\<close>

definition emitFailEnv :: env where
  "emitFailEnv =
     okEnv\<lparr>emitThrows := (\<lambda>site. site = OpenSyncBuilding \<or> site = RebuildUpdated)\<rparr>"

text \<open>The store after the live preview has been deleted through the delete route.\<close>

definition deletedStore :: store where
  "deletedStore = \<lparr>projects = [exProject],
      previews = [livePreview\<lparr>status := Deleted, url := None, containerName := None\<rparr>]\<rparr>"


section \<open>Properties of the naming rule\<close>

lemma digitVal_digitChar: "d < 10 \<Longrightarrow> digitVal (digitChar d) = d"
  by (simp add: digitVal_def digitChar_def)

lemma readNat_snoc: "readNat (s @ [c]) = 10 * readNat s + digitVal c"
  by (simp add: readNat_def)

lemma readNat_showNat: "readNat (showNat n) = n"
proof (induction n rule: showNat.induct)
  case (1 n)
  show ?case
  proof (cases "n < 10")
    case True
    then show ?thesis
      by (simp add: showNat.simps [of n] readNat_def digitVal_digitChar)
  next
    case False
    then have "readNat (showNat (n div 10)) = n div 10"
      using "1.IH" by simp
    with False show ?thesis
      by (simp add: showNat.simps [of n] readNat_snoc digitVal_digitChar)
  qed
qed

lemma showNat_inj: "showNat a = showNat b \<Longrightarrow> a = b"
  by (metis readNat_showNat)

lemma sanitize_digitChar:
  "d < 10 \<Longrightarrow> sanitizeChar (toLowerChar (digitChar d)) = digitChar d"
  by (simp add: sanitizeChar_def toLowerChar_def allowedChar_def digitChar_def Let_def)

lemma sanitize_showNat: "sanitize (showNat n) = showNat n"
proof (induction n rule: showNat.induct)
  case (1 n)
  show ?case
  proof (cases "n < 10")
    case True
    then show ?thesis
      using sanitize_digitChar [of n] by (simp add: showNat.simps [of n] sanitize_def)
  next
    case False
    then have "sanitize (showNat (n div 10)) = showNat (n div 10)"
      using "1.IH" by simp
    with False show ?thesis
      using sanitize_digitChar [of "n mod 10"]
      by (simp add: showNat.simps [of n] sanitize_def)
  qed
qed

lemma sanitize_append: "sanitize (a @ b) = sanitize a @ sanitize b"
  by (simp add: sanitize_def)

lemma generateContainerName_split:
  "generateContainerName proj prNum b =
     sanitize (''preview-p'' @ take 8 (project_id proj) @ ''-pr'' @ showNat prNum @ ''-b'') @ showNat b"
  by (simp only: generateContainerName_def Let_def sanitize_append sanitize_showNat append_assoc)

lemma generateContainerName_inj:
  "generateContainerName proj prNum b1 = generateContainerName proj prNum b2 \<Longrightarrow> b1 = b2"
  by (simp add: generateContainerName_split showNat_inj)

text \<open>
  C8. The container name is a function of the project, the pull-request
  number and the build number alone, and for one project and one pull request
  two build numbers give the same name exactly when they are equal: equal
  build numbers give the identical identifier, different build numbers give
  different identifiers.
\<close>

theorem generateContainerName_deterministic_distinct:
  "(generateContainerName proj prNum b1 = generateContainerName proj prNum b2) = (b1 = b2)"
  using generateContainerName_inj [of proj prNum b1 b2] by blast

section \<open>The record store and the port scan\<close>

lemma findUnique_setRow:
  assumes "\<And>p. preview_id (f p) = preview_id p"
  shows "findUnique j (setRow i f s) = (if j = i then map_option f (findUnique i s) else findUnique j s)"
proof -
  have "find (\<lambda>p. preview_id p = j) (map (\<lambda>p. if preview_id p = i then f p else p) xs) =
        (if j = i then map_option f (find (\<lambda>p. preview_id p = i) xs) else find (\<lambda>p. preview_id p = j) xs)" for xs
    by (induction xs) (auto simp: assms)
  then show ?thesis
    by (simp add: findUnique_def setRow_def)
qed

lemma projects_setRow [simp]: "projects (setRow i f s) = projects s"
  by (simp add: setRow_def)

lemma updatePreview_found: "findUnique i s = Some p \<Longrightarrow> updatePreview i f s = Inr (setRow i f s)"
  by (simp add: updatePreview_def)

lemma updatePreview_Inr: "updatePreview i f s = Inr s' \<Longrightarrow> s' = setRow i f s \<and> findUnique i s \<noteq> None"
  by (auto simp: updatePreview_def split: option.splits)

lemma portScan_Inr:
  "(portScan e s s2 p maxPort = Inr q) =
     (p \<le> q \<and> q \<le> maxPort \<and> \<not> portReservedInDB s q \<and> isPortFree e q \<and> \<not> portReservedInDB s2 q \<and>
      (\<forall>r. p \<le> r \<and> r < q \<longrightarrow> portReservedInDB s r \<or> \<not> isPortFree e r \<or> portReservedInDB s2 r))"
proof (induction e s s2 p maxPort rule: portScan.induct)
  case (1 e s s2 p maxPort)
  show ?case
  proof (cases "p \<le> maxPort")
    case False
    then show ?thesis
      by (subst portScan.simps) auto
  next
    case True
    show ?thesis
    proof (cases "portReservedInDB s p \<or> \<not> isPortFree e p \<or> portReservedInDB s2 p")
      case skip: True
      then have step: "portScan e s s2 p maxPort = portScan e s s2 (Suc p) maxPort"
        using True by (subst portScan.simps) auto
      have ih: "(portScan e s s2 (Suc p) maxPort = Inr q) =
         (Suc p \<le> q \<and> q \<le> maxPort \<and> \<not> portReservedInDB s q \<and> isPortFree e q \<and> \<not> portReservedInDB s2 q \<and>
          (\<forall>r. Suc p \<le> r \<and> r < q \<longrightarrow> portReservedInDB s r \<or> \<not> isPortFree e r \<or> portReservedInDB s2 r))"
        using "1.IH" True skip by blast
      show ?thesis
      proof -
        have a: "Suc p \<le> r \<longleftrightarrow> p \<le> r \<and> r \<noteq> p" for r by auto
        show ?thesis
          unfolding step ih a using skip by blast
      qed
    next
      case take: False
      then have step: "portScan e s s2 p maxPort = Inr p"
        using True by (subst portScan.simps) auto
      show ?thesis
      proof (cases "p = q")
        case True
        then show ?thesis
          unfolding step using take \<open>p \<le> maxPort\<close> by auto
      next
        case False
        then have "p \<le> q \<Longrightarrow> p < q" by simp
        then show ?thesis
          unfolding step using take False by auto
      qed
    qed
  qed
qed

lemma portScan_Inl:
  "(portScan e s s2 p maxPort = Inl err) =
     (err = PortExhausted \<and>
      (\<forall>r. p \<le> r \<and> r \<le> maxPort \<longrightarrow> portReservedInDB s r \<or> \<not> isPortFree e r \<or> portReservedInDB s2 r))"
proof (induction e s s2 p maxPort rule: portScan.induct)
  case (1 e s s2 p maxPort)
  show ?case
  proof (cases "p \<le> maxPort")
    case False
    then show ?thesis
      by (subst portScan.simps) auto
  next
    case True
    show ?thesis
    proof (cases "portReservedInDB s p \<or> \<not> isPortFree e p \<or> portReservedInDB s2 p")
      case skip: True
      then have step: "portScan e s s2 p maxPort = portScan e s s2 (Suc p) maxPort"
        using True by (subst portScan.simps) auto
      have ih: "(portScan e s s2 (Suc p) maxPort = Inl err) =
         (err = PortExhausted \<and>
          (\<forall>r. Suc p \<le> r \<and> r \<le> maxPort \<longrightarrow> portReservedInDB s r \<or> \<not> isPortFree e r \<or> portReservedInDB s2 r))"
        using "1.IH" True skip by blast
      have a: "Suc p \<le> r \<longleftrightarrow> p \<le> r \<and> r \<noteq> p" for r by auto
      show ?thesis
        unfolding step ih a using skip by blast
    next
      case take: False
      then have step: "portScan e s s2 p maxPort = Inr p"
        using True by (subst portScan.simps) auto
      show ?thesis
        unfolding step using take True by auto
    qed
  qed
qed

lemma foldl_push: "foldl (push e) logs chunks = logs @ concat chunks"
  by (induction chunks arbitrary: logs) (auto simp: push_def split: sum.splits)

lemma run_logs: "snd (run e cmd logs) = logs @ concat (fst (execOutcome e cmd))"
  by (auto simp: run_def foldl_push Let_def split: prod.splits proc_end.splits)

lemma reservePort_Inr:
  assumes "reservePort e s i lo hi = Inr (ap, s1)"
  shows "s1 = setRow i (\<lambda>p. p\<lparr>port := Some ap\<rparr>) s \<and> findAvailablePort e s lo hi = Inr ap"
  using assms by (auto simp: reservePort_def dest: updatePreview_Inr split: sum.splits)

lemma reservePort_Inl:
  assumes "findUnique i s = Some pv" and "reservePort e s i lo hi = Inl err"
  shows "err = PortExhausted"
  using assms
  by (auto simp: reservePort_def findAvailablePort_def updatePreview_found portScan_Inl split: sum.splits)

lemma assignPort_Inl:
  assumes "findUnique i s = Some pv" and "assignPort e s i pv' = Inl err"
  shows "err = PortExhausted"
  using assms
  by (auto simp: assignPort_def dest: reservePort_Inl split: option.splits if_splits)

lemma assignPort_Inr:
  assumes "assignPort e s i pv = Inr (ap, s1)"
  shows "0 < ap \<and> (s1 = s \<and> port pv = Some ap \<or> s1 = setRow i (\<lambda>p. p\<lparr>port := Some ap\<rparr>) s)"
  using assms
  by (auto simp: assignPort_def findAvailablePort_def portScan_Inr
           dest!: reservePort_Inr split: option.splits if_splits)

lemma assignPort_row:
  assumes "findUnique i s = Some pv" and "assignPort e s i pv = Inr (ap, s1)"
  shows "findUnique i s1 = Some (pv\<lparr>port := Some ap\<rparr>)"
    and "j \<noteq> i \<Longrightarrow> findUnique j s1 = findUnique j s"
    and "projects s1 = projects s"
  using assignPort_Inr [OF assms(2)] assms(1)
  by (auto simp: findUnique_setRow)

lemma run_Inl: "run e cmd logs = (Inl err, logs') \<Longrightarrow> processFailure err"
  by (auto simp: run_def Let_def processFailure_def split: prod.splits proc_end.splits if_splits)

lemma buildAttempt_port_failed:
  "assignPort e s i pv = Inl err \<Longrightarrow> buildAttempt e s proj i path pr pv cn = (Inl err, s, [])"
  by (simp add: buildAttempt_def)

lemma buildAttempt_port_ok:
  assumes row: "findUnique i s = Some pv"
    and ap: "assignPort e s i pv = Inr (ap, s1)"
    and res: "buildAttempt e s proj i path pr pv cn = (r, s', logs)"
  shows "(\<forall>j. j \<noteq> i \<longrightarrow> findUnique j s' = findUnique j s) \<and> projects s' = projects s \<and>
     (case r of
        Inl err \<Rightarrow> processFailure err \<and>
          findUnique i s' = Some (pv\<lparr>port := Some ap, containerName := Some cn,
                                     buildNumber := buildNumber pv + 1\<rparr>)
      | Inr u \<Rightarrow> u = ''http://localhost:'' @ showNat ap \<and>
          findUnique i s' = Some (pv\<lparr>port := Some ap, containerName := Some cn,
                                     buildNumber := buildNumber pv + 1, status := Live,
                                     url := Some u, buildLogs := Some logs,
                                     buildCompletedAt := Some (now e BuildCompleted)\<rparr>))"
proof -
  let ?f = "\<lambda>p. p\<lparr>containerName := Some cn, buildNumber := buildNumber p + 1\<rparr>"
  have r1: "findUnique i s1 = Some (pv\<lparr>port := Some ap\<rparr>)"
    and o1: "\<And>j. j \<noteq> i \<Longrightarrow> findUnique j s1 = findUnique j s"
    and p1: "projects s1 = projects s"
    using assignPort_row [OF row ap] by auto
  have u2: "updatePreview i ?f s1 = Inr (setRow i ?f s1)"
    using r1 by (rule updatePreview_found)
  have r2: "findUnique i (setRow i ?f s1) = Some (?f (pv\<lparr>port := Some ap\<rparr>))"
    by (simp add: findUnique_setRow r1)
  show ?thesis
    using res r2 o1 p1 
    by (auto simp: buildAttempt_def ap u2 Let_def updatePreview_found findUnique_setRow
             dest: run_Inl split: sum.splits prod.splits)
qed

lemma preview_id_markBuildStart [simp]: "preview_id (markBuildStart e p) = preview_id p"
  by (simp add: markBuildStart_def)

lemma attemptContainerName_markBuildStart [simp]:
  "attemptContainerName proj pr (markBuildStart e p) = attemptContainerName proj pr p"
  by (simp add: attemptContainerName_def markBuildStart_def)

lemma buildPreview_unfold:
  assumes "findUnique i s = Some p0"
  shows "buildPreview e s proj i path pr =
     (case buildAttempt e (setRow i (markBuildStart e) s) proj i path pr (markBuildStart e p0)
             (attemptContainerName proj pr p0) of
        (Inr u, s', logs) \<Rightarrow> (Inr u, s')
      | (Inl err, s', logs) \<Rightarrow> (Inl err, markError e s' i logs err))"
  using assms
  by (simp add: buildPreview_def updatePreview_found findUnique_setRow Let_def
           split: prod.splits sum.splits)

lemma buildPreview_row:
  assumes row: "findUnique i s = Some p0"
    and res: "buildPreview e s proj i path pr = (r, s')"
  shows "(\<forall>j. j \<noteq> i \<longrightarrow> findUnique j s' = findUnique j s) \<and> projects s' = projects s \<and>
     (case r of
        Inr u \<Rightarrow> (\<exists>ap logs. 0 < ap \<and> u = ''http://localhost:'' @ showNat ap \<and>
           findUnique i s' =
             Some (p0\<lparr>status := Live, buildStartedAt := Some (now e BuildStarted),
                      port := Some ap,
                      containerName := Some (attemptContainerName proj pr p0),
                      buildNumber := buildNumber p0 + 1, url := Some u,
                      buildLogs := Some logs,
                      buildCompletedAt := Some (now e BuildCompleted)\<rparr>))
      | Inl err \<Rightarrow> (\<exists>logs.
           logs = snd (snd (buildAttempt e (setRow i (markBuildStart e) s) proj i path pr
                              (markBuildStart e p0) (attemptContainerName proj pr p0))) \<and>
           (err = PortExhausted \<and> logs = [] \<and>
            findUnique i s' =
              Some (p0\<lparr>status := Error, buildStartedAt := Some (now e BuildStarted),
                       buildLogs := Some (errorText logs err),
                       buildCompletedAt := Some (now e BuildFailedAt), port := None\<rparr>)
            \<or>
            processFailure err \<and>
            findUnique i s' =
              Some (p0\<lparr>status := Error, buildStartedAt := Some (now e BuildStarted),
                       containerName := Some (attemptContainerName proj pr p0),
                       buildNumber := buildNumber p0 + 1,
                       buildLogs := Some (errorText logs err),
                       buildCompletedAt := Some (now e BuildFailedAt), port := None\<rparr>))))"
proof -
  let ?s0 = "setRow i (markBuildStart e) s"
  let ?pv = "markBuildStart e p0"
  let ?cn = "attemptContainerName proj pr p0"
  let ?g = "\<lambda>logs err p. p\<lparr>status := Error, buildLogs := Some (logs @ nl @ nl @ ''ERROR:'' @ nl @ errDetail err),
                    buildCompletedAt := Some (now e BuildFailedAt), port := None\<rparr>"
  obtain r0 s1 logs where att: "buildAttempt e ?s0 proj i path pr ?pv ?cn = (r0, s1, logs)"
    by (cases "buildAttempt e ?s0 proj i path pr ?pv ?cn") auto
  have row0: "findUnique i ?s0 = Some ?pv"
    by (simp add: findUnique_setRow row)
  have oth0: "j \<noteq> i \<Longrightarrow> findUnique j ?s0 = findUnique j s" for j
    by (simp add: findUnique_setRow)
  have res': "(r, s') = (case r0 of Inr u \<Rightarrow> (Inr u, s1) | Inl err \<Rightarrow> (Inl err, markError e s1 i logs err))"
    using res by (cases r0) (auto simp: buildPreview_unfold [OF row] att)
  have mark: "findUnique i sx = Some q \<Longrightarrow> markError e sx i lg err = setRow i (?g lg err) sx" for sx q lg err
    by (simp add: markError_def updatePreview_found)
  show ?thesis
  proof (cases "assignPort e ?s0 i ?pv")
    case (Inl err)
    have perr: "err = PortExhausted"
      using assignPort_Inl [OF row0 Inl] .
    have "buildAttempt e ?s0 proj i path pr ?pv ?cn = (Inl err, ?s0, [])"
      using Inl by (rule buildAttempt_port_failed)
    with att have eqs: "r0 = Inl err" "s1 = ?s0" "logs = []" by auto
    have r: "r = Inl err" and s': "s' = setRow i (?g [] err) ?s0"
      using res' eqs mark [OF row0] by auto
    have "findUnique i s' = Some (?g [] err ?pv)"
      unfolding s' by (simp add: findUnique_setRow row0)
    moreover have "j \<noteq> i \<Longrightarrow> findUnique j s' = findUnique j s" for j
      unfolding s' by (simp add: findUnique_setRow)
    moreover have "projects s' = projects s"
      unfolding s' by simp
    ultimately show ?thesis
      using r perr att eqs by (simp add: markBuildStart_def errorText_def)
  next
    case (Inr x)
    obtain ap sp where ap: "assignPort e ?s0 i ?pv = Inr (ap, sp)"
      using Inr by (cases x) auto
    have pos: "0 < ap"
      using assignPort_Inr [OF ap] by simp
    have B: "(\<forall>j. j \<noteq> i \<longrightarrow> findUnique j s1 = findUnique j ?s0) \<and> projects s1 = projects ?s0 \<and>
     (case r0 of
        Inl err \<Rightarrow> processFailure err \<and>
          findUnique i s1 = Some (?pv\<lparr>port := Some ap, containerName := Some ?cn,
                                     buildNumber := buildNumber ?pv + 1\<rparr>)
      | Inr u \<Rightarrow> u = ''http://localhost:'' @ showNat ap \<and>
          findUnique i s1 = Some (?pv\<lparr>port := Some ap, containerName := Some ?cn,
                                     buildNumber := buildNumber ?pv + 1, status := Live,
                                     url := Some u, buildLogs := Some logs,
                                     buildCompletedAt := Some (now e BuildCompleted)\<rparr>))"
      using buildAttempt_port_ok [OF row0 ap att] .
    show ?thesis
    proof (cases r0)
      case (Inl err)
      have r1: "findUnique i s1 = Some (?pv\<lparr>port := Some ap, containerName := Some ?cn,
                                     buildNumber := buildNumber ?pv + 1\<rparr>)"
        and pf: "processFailure err"
        using B Inl by auto
      have r: "r = Inl err" and s': "s' = setRow i (?g logs err) s1"
        using res' Inl mark [OF r1] by auto
      have "findUnique i s' = Some (?g logs err (?pv\<lparr>port := Some ap, containerName := Some ?cn,
                                     buildNumber := buildNumber ?pv + 1\<rparr>))"
        unfolding s' by (simp add: findUnique_setRow r1)
      moreover have "j \<noteq> i \<Longrightarrow> findUnique j s' = findUnique j s" for j
        unfolding s' using B oth0 by (simp add: findUnique_setRow)
      moreover have "projects s' = projects s"
        unfolding s' using B by simp
      ultimately show ?thesis
        using r pf att by (simp add: markBuildStart_def errorText_def)
    next
      case (Inr u)
      have r: "r = Inr u" and s': "s' = s1"
        using res' Inr by auto
      have u: "u = ''http://localhost:'' @ showNat ap"
        and r1: "findUnique i s1 = Some (?pv\<lparr>port := Some ap, containerName := Some ?cn,
                                     buildNumber := buildNumber ?pv + 1, status := Live,
                                     url := Some u, buildLogs := Some logs,
                                     buildCompletedAt := Some (now e BuildCompleted)\<rparr>)"
        using B Inr by auto
      have ex: "\<exists>ap logs. 0 < ap \<and> u = ''http://localhost:'' @ showNat ap \<and>
           findUnique i s1 =
             Some (p0\<lparr>status := Live, buildStartedAt := Some (now e BuildStarted),
                      port := Some ap,
                      containerName := Some (attemptContainerName proj pr p0),
                      buildNumber := buildNumber p0 + 1, url := Some u,
                      buildLogs := Some logs,
                      buildCompletedAt := Some (now e BuildCompleted)\<rparr>)"
        apply (rule exI [of _ ap])
        apply (rule exI [of _ logs])
        using pos u r1 by (simp add: markBuildStart_def)
      show ?thesis
        using r B oth0 ex unfolding s' by simp
    qed
  qed
qed

section \<open>Evaluating the model on concrete inputs\<close>

lemma digitChar_numerals:
  "digitChar 0 = CHR ''0''" "digitChar 1 = CHR ''1''" "digitChar 2 = CHR ''2''"
  "digitChar 3 = CHR ''3''" "digitChar 4 = CHR ''4''" "digitChar 5 = CHR ''5''"
  "digitChar 6 = CHR ''6''" "digitChar 7 = CHR ''7''" "digitChar 8 = CHR ''8''"
  "digitChar 9 = CHR ''9''" "digitChar (Suc 0) = CHR ''1''"
  by (simp_all add: digitChar_def char_of_def bit_Suc_0_iff)

lemmas eval_defs =
  buildPreview_def buildAttempt_def assignPort_def reservePort_def updatePreview_def
  findUnique_def findProject_def findByPR_def setRow_def upsertPreview_def
  markBuildStart_def markRebuild_def markError_def isPortFree_def portReservedInDB_def
  run_def push_def tryEmit_def emit_def cloneRepo_def
  attemptContainerName_def generateContainerName_def sanitize_def sanitizeChar_def
  allowedChar_def toLowerChar_def baseName_def buildCommand_def runCommand_def
  handlePROpenOrSync_def handlePRClosed_def rebuild_def rebuildFailed_def deletePreview_def
  errDetail_def errMessage_def
  showNat.simps digitChar_numerals Let_def char_of_def bit_Suc_0_iff

lemmas example_defs =
  exProject_def okEnv_def livePreview_def liveStore_def emptyStore_def
  scenarioStore_def scenarioEnv_def

lemma ex_buildPreview_ok:
  "fst (buildPreview okEnv liveStore exProject ''pv1'' ''/tmp/repo'' 42) =
     Inr ''http://localhost:5007''"
  by (simp add: eval_defs example_defs)

lemma ex_liveStore_row: "findUnique ''pv1'' liveStore = Some livePreview"
  by (simp add: findUnique_def liveStore_def livePreview_def)

section \<open>The port allocator\<close>

text \<open>
  C4. \<open>findAvailablePort\<close> runs the scan from \<open>minPort\<close>. The scan returns port
  \<open>p\<close> exactly when \<open>p\<close> lies in the inclusive range, passes the three checks
  (not reserved in the store by a non-deleted preview, bindable on loopback,
  not reserved at the re-query) and every smaller candidate of the range fails
  one of them; it fails, always with \<open>PortExhausted\<close>, exactly when every
  candidate of the range fails a check. For the range 5000 to 5001 with 5000
  reserved by a live preview and 5001 bound at the OS level, the allocation
  fails with \<open>PortExhausted\<close>.
\<close>

theorem findAvailablePort_first_fit:
  "findAvailablePort e s minPort maxPort = portScan e s s minPort maxPort \<and>
   ((portScan e s s2 minPort maxPort = Inr p) =
      (minPort \<le> p \<and> p \<le> maxPort \<and>
       \<not> portReservedInDB s p \<and> isPortFree e p \<and> \<not> portReservedInDB s2 p \<and>
       (\<forall>r. minPort \<le> r \<and> r < p \<longrightarrow>
            portReservedInDB s r \<or> \<not> isPortFree e r \<or> portReservedInDB s2 r))) \<and>
   ((portScan e s s2 minPort maxPort = Inl err) =
      (err = PortExhausted \<and>
       (\<forall>r. minPort \<le> r \<and> r \<le> maxPort \<longrightarrow>
            portReservedInDB s r \<or> \<not> isPortFree e r \<or> portReservedInDB s2 r))) \<and>
   findAvailablePort scenarioEnv scenarioStore 5000 5001 = Inl PortExhausted"
proof -
  have sc: "findAvailablePort scenarioEnv scenarioStore 5000 5001 = Inl PortExhausted"
    by (simp add: findAvailablePort_def portScan.simps portReservedInDB_def isPortFree_def
                  scenarioStore_def scenarioEnv_def okEnv_def livePreview_def)
  show ?thesis
    using sc portScan_Inr [of e s s2 minPort maxPort p] portScan_Inl [of e s s2 minPort maxPort err]
    by (simp only: findAvailablePort_def simp_thms)
qed

theorem findAvailablePort_first_fit_witness:
  "findAvailablePort scenarioEnv scenarioStore 5000 5002 = Inr 5002 \<and>
   portReservedInDB scenarioStore 5000 \<and> \<not> isPortFree scenarioEnv 5001 \<and>
   isPortFree scenarioEnv 5002"
proof -
  have a: "portReservedInDB scenarioStore 5000" "\<not> isPortFree scenarioEnv 5001"
    "\<not> portReservedInDB scenarioStore 5002" "isPortFree scenarioEnv 5002"
    by (simp_all add: portReservedInDB_def isPortFree_def scenarioStore_def scenarioEnv_def
                      okEnv_def livePreview_def)
  have b: "\<forall>r. (5000::nat) \<le> r \<and> r < 5002 \<longrightarrow>
             portReservedInDB scenarioStore r \<or> \<not> isPortFree scenarioEnv r \<or>
             portReservedInDB scenarioStore r"
  proof (intro allI impI)
    fix r :: nat
    assume "5000 \<le> r \<and> r < 5002"
    then have "r = 5000 \<or> r = 5001" by arith
    then show "portReservedInDB scenarioStore r \<or> \<not> isPortFree scenarioEnv r \<or>
               portReservedInDB scenarioStore r"
      using a by auto
  qed
  have "portScan scenarioEnv scenarioStore scenarioStore 5000 5002 = Inr 5002"
    using findAvailablePort_first_fit [of scenarioEnv scenarioStore 5000 5002 scenarioStore 5002]
      a b by simp
  then show ?thesis
    using a findAvailablePort_first_fit [of scenarioEnv scenarioStore 5000 5002 scenarioStore 5002]
    by simp
qed

section \<open>Build numbers and container names\<close>





section \<open>The rebuild route\<close>

lemma preview_id_markRebuild [simp]: "preview_id (markRebuild e p) = preview_id p"
  by (simp add: markRebuild_def)

lemma rebuildFailed_row:
  assumes "findUnique i s = Some q"
  shows "findUnique i (snd (rebuildFailed e s i)) =
           Some (q\<lparr>status := Error, buildCompletedAt := Some (now e RebuildFailedAt),
                   url := None, containerName := None\<rparr>)"
    and "j \<noteq> i \<Longrightarrow> findUnique j (snd (rebuildFailed e s i)) = findUnique j s"
    and "projects (snd (rebuildFailed e s i)) = projects s"
    and "fst (rebuildFailed e s i) = (if emitThrows e RebuildFailed then Unexpected500 else BuildFailed500)"
  using assms
  by (auto simp: rebuildFailed_def updatePreview_found findUnique_setRow emit_def)

lemma buildPreview_row_exists:
  assumes "findUnique i s = Some p0" and "buildPreview e s proj i path pr = (r, s')"
  shows "\<exists>p'. findUnique i s' = Some p'"
  using buildPreview_row [OF assms] by (cases r) auto

lemma processFailure_not_exhausted: "processFailure err \<Longrightarrow> err \<noteq> PortExhausted"
  by (auto simp: processFailure_def)

lemma buildPreview_buildNumber:
  assumes "findUnique i s = Some p0" and "buildPreview e s proj i path pr = (r, s')"
  shows "\<exists>p'. findUnique i s' = Some p' \<and>
     buildNumber p' = (if r = Inl PortExhausted then buildNumber p0 else buildNumber p0 + 1)"
proof (cases r)
  case (Inl err)
  then show ?thesis
    using buildPreview_row [OF assms] by (auto dest: processFailure_not_exhausted)
next
  case (Inr u)
  then show ?thesis
    using buildPreview_row [OF assms] by auto
qed

lemma rebuild_authorised:
  assumes row: "findUnique i s = Some p0"
    and proj: "findProject (projectId p0) s = Some proj"
    and auth: "userId proj = uid"
    and emit: "\<not> emitThrows e RebuildBuilding"
    and clone: "cloneRepo e (repoOwner proj) (repoName proj) None = Inr path"
    and build: "buildPreview e (setRow i (markRebuild e) s) proj i path (prNumber p0) = (r, s2)"
  shows "rebuild e s (Some uid) i =
     (case r of
        Inr u \<Rightarrow> if emitThrows e RebuildUpdated then rebuildFailed e s2 i else (RebuildOk u, s2)
      | Inl err \<Rightarrow> rebuildFailed e s2 i)"
proof -
  have row1: "findUnique i (setRow i (markRebuild e) s) = Some (markRebuild e p0)"
    by (simp add: findUnique_setRow row)
  obtain p2 where row2: "findUnique i s2 = Some p2"
    using buildPreview_row_exists [OF row1 build] by blast
  show ?thesis
    using row proj auth emit clone build row2
    by (cases r) (auto simp: rebuild_def updatePreview_found emit_def)
qed

lemma rebuild_not_started:
  assumes row: "findUnique i s = Some p0"
    and proj: "findProject (projectId p0) s = Some proj"
    and auth: "userId proj = uid"
    and stop: "emitThrows e RebuildBuilding \<or> cloneRepo e (repoOwner proj) (repoName proj) None = Inl err"
  shows "rebuild e s (Some uid) i = (Unexpected500, setRow i (markRebuild e) s)"
  using assms
  by (auto simp: rebuild_def updatePreview_found emit_def split: sum.splits)

lemma ex_liveStore_project: "findProject (projectId livePreview) liveStore = Some exProject"
  by (simp add: findProject_def liveStore_def livePreview_def exProject_def)

lemma noPort_exhausted: "findAvailablePort noPortEnv s lo hi = Inl PortExhausted"
  by (simp add: findAvailablePort_def portScan_Inl isPortFree_def noPortEnv_def okEnv_def)

lemma noPortEnv_fields:
  "osPortFree noPortEnv p = False" "emitThrows noPortEnv site = False"
  "cloneResult noPortEnv owner name ref = Inr ''/tmp/repo''" "now noPortEnv c = 100"
  by (simp_all add: noPortEnv_def okEnv_def)

text \<open>
  C2 (as the code has it). For every authorised rebuild of an existing preview
  whose building event could be emitted: when the clone fails, the persisted
  \<open>buildNumber\<close> after the call is the one before the call; when the clone
  succeeds, it is the one before the call when the build attempt fails in port
  allocation (\<open>PortExhausted\<close>), and the one before the call plus exactly 1 in
  every other case, that is when the attempt succeeds and when it fails in the
  image build or in the container run.
\<close>

theorem rebuild_buildNumber_step:
  assumes row: "findUnique i s = Some p0"
    and proj: "findProject (projectId p0) s = Some proj"
    and auth: "userId proj = uid"
    and emit: "\<not> emitThrows e RebuildBuilding"
    and res: "rebuild e s (Some uid) i = (resp, s')"
  shows "\<exists>p'. findUnique i s' = Some p' \<and>
     buildNumber p' =
       (case cloneRepo e (repoOwner proj) (repoName proj) None of
          Inl err \<Rightarrow> buildNumber p0
        | Inr path \<Rightarrow>
            if fst (buildPreview e (setRow i (markRebuild e) s) proj i path (prNumber p0)) =
                 Inl PortExhausted
            then buildNumber p0 else buildNumber p0 + 1)"
proof (cases "cloneRepo e (repoOwner proj) (repoName proj) None")
  case (Inl err)
  have "rebuild e s (Some uid) i = (Unexpected500, setRow i (markRebuild e) s)"
    using rebuild_not_started [OF row proj auth] Inl by blast
  then have "s' = setRow i (markRebuild e) s"
    using res by simp
  then show ?thesis
    using Inl row by (simp add: findUnique_setRow markRebuild_def)
next
  case (Inr path)
  let ?s1 = "setRow i (markRebuild e) s"
  obtain r s2 where build: "buildPreview e ?s1 proj i path (prNumber p0) = (r, s2)"
    by (cases "buildPreview e ?s1 proj i path (prNumber p0)") auto
  have row1: "findUnique i ?s1 = Some (markRebuild e p0)"
    by (simp add: findUnique_setRow row)
  have b1: "buildNumber (markRebuild e p0) = buildNumber p0"
    by (simp add: markRebuild_def)
  obtain p2 where row2: "findUnique i s2 = Some p2"
    and bn2: "buildNumber p2 = (if r = Inl PortExhausted then buildNumber p0 else buildNumber p0 + 1)"
    using buildPreview_buildNumber [OF row1 build] b1 by auto
  have s'eq: "s' = snd (rebuild e s (Some uid) i)"
    using res by simp
  have fin: "s' = s2 \<or> s' = snd (rebuildFailed e s2 i)"
    unfolding s'eq rebuild_authorised [OF row proj auth emit Inr build]
    by (cases r) auto
  have "\<exists>p'. findUnique i s' = Some p' \<and> buildNumber p' = buildNumber p2"
    using fin row2 rebuildFailed_row(1) [OF row2, of e] by auto
  then show ?thesis
    using Inr build bn2 by simp
qed

theorem rebuild_buildNumber_step_witness:
  "findUnique ''pv1'' liveStore = Some livePreview \<and>
   findProject (projectId livePreview) liveStore = Some exProject \<and>
   userId exProject = ''u1'' \<and> \<not> emitThrows okEnv RebuildBuilding \<and>
   buildNumber livePreview = 2 \<and>
   (\<exists>p'. findUnique ''pv1'' (snd (rebuild okEnv liveStore (Some ''u1'') ''pv1'')) = Some p' \<and>
         buildNumber p' = 3)"
proof -
  have auth: "userId exProject = ''u1''" by (simp add: exProject_def)
  have emit: "\<not> emitThrows okEnv RebuildBuilding" by (simp add: okEnv_def)
  have res: "rebuild okEnv liveStore (Some ''u1'') ''pv1'' =
     (fst (rebuild okEnv liveStore (Some ''u1'') ''pv1''), snd (rebuild okEnv liveStore (Some ''u1'') ''pv1''))"
    by simp
  have clone: "cloneRepo okEnv (repoOwner exProject) (repoName exProject) None = Inr ''/tmp/repo''"
    by (simp add: cloneRepo_def okEnv_def)
  have ok: "fst (buildPreview okEnv (setRow ''pv1'' (markRebuild okEnv) liveStore) exProject ''pv1''
                  ''/tmp/repo'' (prNumber livePreview)) \<noteq> Inl PortExhausted"
    by (simp add: eval_defs example_defs)
  show ?thesis
    using ex_liveStore_row ex_liveStore_project auth emit
      rebuild_buildNumber_step [OF ex_liveStore_row ex_liveStore_project auth emit res]
    by (simp add: clone ok) (simp add: livePreview_def)
qed

text \<open>
  C2 as stated fails: a rebuild of the live preview whose clone fails, and a
  rebuild that finds every port bound, both leave \<open>buildNumber\<close> at 2.
\<close>

theorem rebuild_buildNumber_counterexample:
  "fst (rebuild cloneFailEnv liveStore (Some ''u1'') ''pv1'') = Unexpected500 \<and>
   map buildNumber (previews (snd (rebuild cloneFailEnv liveStore (Some ''u1'') ''pv1''))) = [2] \<and>
   fst (rebuild noPortEnv liveStore (Some ''u1'') ''pv1'') = BuildFailed500 \<and>
   map buildNumber (previews (snd (rebuild noPortEnv liveStore (Some ''u1'') ''pv1''))) = [2] \<and>
   map buildNumber (previews liveStore) = [2]"
proof -
  have a: "rebuild cloneFailEnv liveStore (Some ''u1'') ''pv1'' =
           (Unexpected500, setRow ''pv1'' (markRebuild cloneFailEnv) liveStore)"
    by (simp add: eval_defs example_defs cloneFailEnv_def)
  have b: "fst (rebuild noPortEnv liveStore (Some ''u1'') ''pv1'') = BuildFailed500"
    "map buildNumber (previews (snd (rebuild noPortEnv liveStore (Some ''u1'') ''pv1''))) = [2]"
    by (simp_all add: rebuild_def rebuildFailed_def buildPreview_def buildAttempt_def
          assignPort_def reservePort_def noPort_exhausted markError_def updatePreview_def
          findUnique_def findProject_def setRow_def markRebuild_def markBuildStart_def
          cloneRepo_def emit_def isPortFree_def noPortEnv_fields
          exProject_def livePreview_def liveStore_def)
  show ?thesis
    using b by (simp add: a) (simp add: setRow_def markRebuild_def example_defs)
qed

section \<open>The error transition\<close>

text \<open>
  C3 (as the code has it). When \<open>buildPreview\<close> fails on an existing preview,
  which happens in port allocation (\<open>PortExhausted\<close>) or through a child
  process of the image build or the container run, the row afterwards has
  status error, no port, \<open>buildCompletedAt\<close> set to the time of the failure
  and \<open>buildLogs\<close> equal to the log buffer of the attempt followed by two
  newlines, \<open>ERROR:\<close>, a newline and the failure detail.
\<close>

theorem buildPreview_failure_marks_error:
  assumes row: "findUnique i s = Some p0"
    and res: "buildPreview e s proj i path pr = (Inl err, s')"
  shows "\<exists>p'. findUnique i s' = Some p' \<and> status p' = Error \<and> port p' = None \<and>
     buildCompletedAt p' = Some (now e BuildFailedAt) \<and>
     buildLogs p' =
       Some (snd (snd (buildAttempt e (setRow i (markBuildStart e) s) proj i path pr
                         (markBuildStart e p0) (attemptContainerName proj pr p0)))
             @ nl @ nl @ ''ERROR:'' @ nl @ errDetail err) \<and>
     (err = PortExhausted \<or> processFailure err)"
  using buildPreview_row [OF row res] by (auto simp: errorText_def)

theorem buildPreview_failure_marks_error_witness:
  "findUnique ''pv1'' liveStore = Some livePreview \<and>
   fst (buildPreview buildFailEnv liveStore exProject ''pv1'' ''/tmp/repo'' 42) = Inl (CommandFailed 1) \<and>
   (\<exists>p'. findUnique ''pv1'' (snd (buildPreview buildFailEnv liveStore exProject ''pv1'' ''/tmp/repo'' 42)) = Some p' \<and>
      status p' = Error \<and> port p' = None \<and> buildCompletedAt p' = Some 100 \<and>
      buildLogs p' =
        Some (nl @ ''> docker build -t acme-web-pr-42 -f '' @ dq @
              ''/app/deploy-templates/vite.Dockerfile'' @ dq @ '' '' @ dq @ ''/tmp/repo'' @ dq @ nl @
              ''boom'' @ nl @ nl @ ''ERROR:'' @ nl @ ''Command failed with exit code 1''))"
proof -
  have f: "fst (buildPreview buildFailEnv liveStore exProject ''pv1'' ''/tmp/repo'' 42) = Inl (CommandFailed 1)"
    by (simp add: eval_defs example_defs buildFailEnv_def)
  have res: "buildPreview buildFailEnv liveStore exProject ''pv1'' ''/tmp/repo'' 42 =
     (Inl (CommandFailed 1), snd (buildPreview buildFailEnv liveStore exProject ''pv1'' ''/tmp/repo'' 42))"
    using f by (metis prod.collapse)
  have logs: "snd (snd (buildAttempt buildFailEnv (setRow ''pv1'' (markBuildStart buildFailEnv) liveStore)
                    exProject ''pv1'' ''/tmp/repo'' 42 (markBuildStart buildFailEnv livePreview)
                    (attemptContainerName exProject 42 livePreview))) =
     nl @ ''> docker build -t acme-web-pr-42 -f '' @ dq @
              ''/app/deploy-templates/vite.Dockerfile'' @ dq @ '' '' @ dq @ ''/tmp/repo'' @ dq @ nl @
              ''boom''"
    by (simp add: eval_defs example_defs buildFailEnv_def nl_def dq_def)
  have t: "now buildFailEnv BuildFailedAt = 100"
    by (simp add: buildFailEnv_def okEnv_def)
  have d: "errDetail (CommandFailed 1) = ''Command failed with exit code 1''"
    by (simp add: eval_defs)
  show ?thesis
    using ex_liveStore_row f
      buildPreview_failure_marks_error [OF ex_liveStore_row res, unfolded logs t d]
    by auto
qed

text \<open>
  C3 as stated fails for a clone failure: the handler throws before the build
  flow is entered, the row keeps status building, its port, its logs and its
  completion time.
\<close>

theorem clone_failure_counterexample:
  "fst (handlePROpenOrSync cloneFailEnv liveStore exProject 42 None) = Inl (CloneFailed ''clone failed'') \<and>
   map status (previews (snd (handlePROpenOrSync cloneFailEnv liveStore exProject 42 None))) = [Building] \<and>
   map port (previews (snd (handlePROpenOrSync cloneFailEnv liveStore exProject 42 None))) = [Some 5007] \<and>
   map buildLogs (previews (snd (handlePROpenOrSync cloneFailEnv liveStore exProject 42 None))) = [Some ''log''] \<and>
   map buildCompletedAt (previews (snd (handlePROpenOrSync cloneFailEnv liveStore exProject 42 None))) = [Some 20]"
  by (simp add: eval_defs example_defs cloneFailEnv_def)

section \<open>Which counter value names the container\<close>

lemma attemptContainerName_pos:
  "0 < buildNumber p \<Longrightarrow> attemptContainerName proj pr p = generateContainerName proj pr (buildNumber p)"
  by (simp add: attemptContainerName_def)

lemma buildPreview_counter_and_name:
  assumes row: "findUnique i s = Some p0"
    and res: "buildPreview e s proj i path pr = (r, s')"
  shows "\<exists>p'. findUnique i s' = Some p' \<and>
     (if r = Inl PortExhausted then buildNumber p' = buildNumber p0
      else buildNumber p' = buildNumber p0 + 1 \<and>
           containerName p' = Some (attemptContainerName proj pr p0))"
proof (cases r)
  case (Inl err)
  note B = buildPreview_row [OF row res, unfolded Inl sum.case]
  show ?thesis
  proof (cases "err = PortExhausted")
    case True
    then have "\<not> processFailure err"
      using processFailure_not_exhausted by blast
    then show ?thesis
      using B Inl True by auto
  next
    case False
    then show ?thesis
      using B Inl by auto
  qed
next
  case (Inr u)
  then show ?thesis
    using buildPreview_row [OF row res] by auto
qed

lemma ex_buildPreview_store:
  "snd (buildPreview okEnv liveStore exProject ''pv1'' ''/tmp/repo'' 42) =
     \<lparr>projects = [exProject],
      previews = [livePreview\<lparr>status := Live, buildStartedAt := Some 100,
                     containerName := Some ''preview-pckv9x2a1-pr42-b2'', buildNumber := 3,
                     buildLogs := Some (nl @ ''> docker build -t acme-web-pr-42 -f '' @ dq @
                        ''/app/deploy-templates/vite.Dockerfile'' @ dq @ '' '' @ dq @ ''/tmp/repo'' @ dq @
                        nl @ ''out'' @ nl @
                        ''> docker run -d --name preview-pckv9x2a1-pr42-b2 -p 5007:80 acme-web-pr-42'' @
                        nl @ ''out''),
                     buildCompletedAt := Some 100\<rparr>]\<rparr>"
  by (simp add: eval_defs example_defs nl_def dq_def)

lemma ex_buildPreview_row:
  "findUnique ''pv1'' (snd (buildPreview okEnv liveStore exProject ''pv1'' ''/tmp/repo'' 42)) =
     Some (livePreview\<lparr>status := Live, buildStartedAt := Some 100,
                     containerName := Some ''preview-pckv9x2a1-pr42-b2'', buildNumber := 3,
                     buildLogs := Some (nl @ ''> docker build -t acme-web-pr-42 -f '' @ dq @
                        ''/app/deploy-templates/vite.Dockerfile'' @ dq @ '' '' @ dq @ ''/tmp/repo'' @ dq @
                        nl @ ''out'' @ nl @
                        ''> docker run -d --name preview-pckv9x2a1-pr42-b2 -p 5007:80 acme-web-pr-42'' @
                        nl @ ''out''),
                     buildCompletedAt := Some 100\<rparr>)"
  by (simp add: ex_buildPreview_store) (simp add: findUnique_def livePreview_def)

text \<open>
  C7 (as the code has it). Every build attempt derives the container name from
  the \<open>buildNumber\<close> the row holds when the attempt loads it, the value before
  that attempt's increment (stated for counters of at least 1). An attempt
  that gets past port allocation persists that name and adds 1 to the counter,
  so the next attempt on the row derives a different name; an attempt that
  fails in port allocation leaves the counter as it was, and the next attempt
  derives the same name again.
\<close>

theorem buildPreview_name_from_loaded_counter:
  assumes row: "findUnique i s = Some p0"
    and pos: "0 < buildNumber p0"
    and res: "buildPreview e s proj i path pr = (r, s')"
  shows "\<exists>p'. findUnique i s' = Some p' \<and>
     attemptContainerName proj pr p0 = generateContainerName proj pr (buildNumber p0) \<and>
     (if r = Inl PortExhausted
      then buildNumber p' = buildNumber p0 \<and>
           attemptContainerName proj pr p' = attemptContainerName proj pr p0
      else containerName p' = Some (generateContainerName proj pr (buildNumber p0)) \<and>
           buildNumber p' = buildNumber p0 + 1 \<and>
           attemptContainerName proj pr p' \<noteq> attemptContainerName proj pr p0)"
proof -
  obtain p' where p': "findUnique i s' = Some p'"
    and c: "if r = Inl PortExhausted then buildNumber p' = buildNumber p0
            else buildNumber p' = buildNumber p0 + 1 \<and>
                 containerName p' = Some (attemptContainerName proj pr p0)"
    using buildPreview_counter_and_name [OF row res] by blast
  have n0: "attemptContainerName proj pr p0 = generateContainerName proj pr (buildNumber p0)"
    using pos by (rule attemptContainerName_pos)
  show ?thesis
  proof (cases "r = Inl PortExhausted")
    case True
    then have "buildNumber p' = buildNumber p0"
      using c by simp
    then have "attemptContainerName proj pr p' = attemptContainerName proj pr p0"
      by (simp add: attemptContainerName_def)
    then show ?thesis
      using p' n0 True \<open>buildNumber p' = buildNumber p0\<close> by auto
  next
    case False
    then have bn: "buildNumber p' = buildNumber p0 + 1"
      and cn: "containerName p' = Some (attemptContainerName proj pr p0)"
      using c by simp_all
    have "attemptContainerName proj pr p' = generateContainerName proj pr (buildNumber p0 + 1)"
      using bn by (simp add: attemptContainerName_def)
    then have "attemptContainerName proj pr p' \<noteq> attemptContainerName proj pr p0"
      using n0 generateContainerName_inj [of proj pr "buildNumber p0 + 1" "buildNumber p0"] by auto
    then show ?thesis
      using p' n0 False bn cn by auto
  qed
qed

theorem buildPreview_name_from_loaded_counter_witness:
  "findUnique ''pv1'' liveStore = Some livePreview \<and> 0 < buildNumber livePreview \<and>
   fst (buildPreview okEnv liveStore exProject ''pv1'' ''/tmp/repo'' 42) \<noteq> Inl PortExhausted \<and>
   (\<exists>p'. findUnique ''pv1''
            (snd (buildPreview okEnv liveStore exProject ''pv1'' ''/tmp/repo'' 42)) = Some p' \<and>
      containerName p' = Some (generateContainerName exProject 42 (buildNumber livePreview)) \<and>
      buildNumber p' = buildNumber livePreview + 1 \<and>
      attemptContainerName exProject 42 p' \<noteq> attemptContainerName exProject 42 livePreview)"
proof -
  have h2: "0 < buildNumber livePreview"
    by (simp add: livePreview_def)
  have h3: "buildPreview okEnv liveStore exProject ''pv1'' ''/tmp/repo'' 42 =
     (Inr ''http://localhost:5007'',
      snd (buildPreview okEnv liveStore exProject ''pv1'' ''/tmp/repo'' 42))"
    using ex_buildPreview_ok by (metis prod.collapse)
  show ?thesis
    using ex_liveStore_row h2 ex_buildPreview_ok
      buildPreview_name_from_loaded_counter [OF ex_liveStore_row h2 h3]
    by auto
qed

text \<open>
  C7 as stated fails: after a successful build of the live preview the counter
  is 3, the persisted name carries build number 2, and the name generated from
  the new value 3 is a different one.
\<close>

theorem name_from_new_counter_counterexample:
  "fst (buildPreview okEnv liveStore exProject ''pv1'' ''/tmp/repo'' 42) =
     Inr ''http://localhost:5007'' \<and>
   map buildNumber (previews liveStore) = [2] \<and>
   map buildNumber
     (previews (snd (buildPreview okEnv liveStore exProject ''pv1'' ''/tmp/repo'' 42))) = [3] \<and>
   map containerName
     (previews (snd (buildPreview okEnv liveStore exProject ''pv1'' ''/tmp/repo'' 42))) =
     [Some ''preview-pckv9x2a1-pr42-b2''] \<and>
   generateContainerName exProject 42 3 = ''preview-pckv9x2a1-pr42-b3''"
  using ex_buildPreview_ok
  by (simp add: ex_buildPreview_store)
     (simp add: liveStore_def livePreview_def exProject_def generateContainerName_def sanitize_def
        sanitizeChar_def allowedChar_def toLowerChar_def showNat.simps digitChar_numerals)

section \<open>The range of the fallback allocation\<close>

text \<open>
  The three cases of the port step: no recorded port allocates in 5000 to
  5999, a recorded port that binds is reused and the store is not written, a
  recorded port that does not bind is replaced by one from 4000 to 4999.
\<close>

lemma assignPort_initial:
  "port pv = None \<Longrightarrow> assignPort e s i pv = reservePort e s i 5000 5999"
  by (simp add: assignPort_def)

lemma assignPort_reuse:
  "port pv = Some ap \<Longrightarrow> 0 < ap \<Longrightarrow> isPortFree e ap \<Longrightarrow> assignPort e s i pv = Inr (ap, s)"
  by (simp add: assignPort_def)

lemma assignPort_fallback:
  "port pv = Some ap \<Longrightarrow> 0 < ap \<Longrightarrow> \<not> isPortFree e ap \<Longrightarrow>
   assignPort e s i pv = reservePort e s i 4000 4999"
  by (simp add: assignPort_def)

text \<open>
  C6. At the failing input the live preview holds port 5007 and that port no
  longer binds: the rebuild falls back to a fresh allocation and gets port
  4000, outside the range 5000 to 5999 from which an initial allocation (a
  first build on an empty store) draws its port 5000.
\<close>

theorem fallback_range_evaluation:
  "fst (rebuild clashEnv liveStore (Some ''u1'') ''pv1'') = RebuildOk ''http://localhost:4000'' \<and>
   map port (previews (snd (rebuild clashEnv liveStore (Some ''u1'') ''pv1''))) = [Some 4000] \<and>
   fst (handlePROpenOrSync okEnv emptyStore exProject 42 None) = Inr () \<and>
   map port (previews (snd (handlePROpenOrSync okEnv emptyStore exProject 42 None))) = [Some 5000]"
  by (simp add: eval_defs example_defs clashEnv_def findAvailablePort_def portScan.simps)

section \<open>Event emission that throws\<close>

text \<open>
  Inside \<open>buildPreview\<close> every emit is guarded: its result and the store it
  leaves do not depend on which emits throw.
\<close>

lemma portScan_ignores_emit:
  "portScan (e\<lparr>emitThrows := f\<rparr>) s s2 p maxPort = portScan e s s2 p maxPort"
proof (induction e s s2 p maxPort rule: portScan.induct)
  case (1 e s s2 p maxPort)
  show ?case
    using "1.IH"
    by (subst portScan.simps, subst (2) portScan.simps) (simp add: isPortFree_def)
qed

lemma push_ignores_emit: "push (e\<lparr>emitThrows := f\<rparr>) = push e"
  by (intro ext) (simp add: push_def)

lemma run_ignores_emit: "run (e\<lparr>emitThrows := f\<rparr>) cmd logs = run e cmd logs"
  by (simp add: run_def push_ignores_emit)

lemma assignPort_ignores_emit:
  "assignPort (e\<lparr>emitThrows := f\<rparr>) s i pv = assignPort e s i pv"
  by (simp add: assignPort_def reservePort_def findAvailablePort_def portScan_ignores_emit
        isPortFree_def cong: option.case_cong if_cong)

lemma buildAttempt_ignores_emit:
  "buildAttempt (e\<lparr>emitThrows := f\<rparr>) s proj i path pr pv cn =
   buildAttempt e s proj i path pr pv cn"
  by (simp add: buildAttempt_def assignPort_ignores_emit run_ignores_emit push_ignores_emit
        buildCommand_def Let_def cong: sum.case_cong prod.case_cong)

lemma markBuildStart_ignores_emit: "markBuildStart (e\<lparr>emitThrows := f\<rparr>) = markBuildStart e"
  by (intro ext) (simp add: markBuildStart_def)

lemma buildPreview_ignores_emit:
  "buildPreview (e\<lparr>emitThrows := f\<rparr>) s proj i path pr = buildPreview e s proj i path pr"
  by (simp add: buildPreview_def buildAttempt_ignores_emit markBuildStart_ignores_emit markError_def
        Let_def cong: sum.case_cong prod.case_cong option.case_cong)

text \<open>
  C9. \<open>buildPreview\<close> returns the same result and store whichever emits throw.
  At the failing inputs the transport throws on one status event. The
  PR-open handler then fails with the emit error before cloning, and the
  preview stays in status building, where the same call with a working
  transport ends live. A rebuild whose build succeeded is answered with
  "Build failed" and the row is set to error, where the same call with a
  working transport answers with the url and leaves the row live.
\<close>

theorem emit_failure_evaluation:
  "buildPreview (e\<lparr>emitThrows := f\<rparr>) s proj i path n = buildPreview e s proj i path n \<and>
   fst (handlePROpenOrSync emitFailEnv emptyStore exProject 42 None) = Inl EmitFailed \<and>
   map status (previews (snd (handlePROpenOrSync emitFailEnv emptyStore exProject 42 None))) = [Building] \<and>
   fst (handlePROpenOrSync okEnv emptyStore exProject 42 None) = Inr () \<and>
   map status (previews (snd (handlePROpenOrSync okEnv emptyStore exProject 42 None))) = [Live] \<and>
   fst (rebuild emitFailEnv liveStore (Some ''u1'') ''pv1'') = BuildFailed500 \<and>
   map status (previews (snd (rebuild emitFailEnv liveStore (Some ''u1'') ''pv1''))) = [Error] \<and>
   fst (rebuild okEnv liveStore (Some ''u1'') ''pv1'') = RebuildOk ''http://localhost:5007'' \<and>
   map status (previews (snd (rebuild okEnv liveStore (Some ''u1'') ''pv1''))) = [Live]"
  by (simp only: buildPreview_ignores_emit simp_thms)
     (simp add: eval_defs example_defs emitFailEnv_def findAvailablePort_def portScan.simps)

section \<open>The status invariant\<close>

lemma findUnique_id: "findUnique i s = Some p \<Longrightarrow> preview_id p = i"
  by (auto simp: findUnique_def find_Some_iff)

lemma findByPR_row: "findByPR a n s = Some pv \<Longrightarrow> \<exists>q. findUnique (preview_id pv) s = Some q"
proof -
  assume "findByPR a n s = Some pv"
  then have "pv \<in> set (previews s)"
    by (auto simp: findByPR_def find_Some_iff)
  then have "find (\<lambda>p. preview_id p = preview_id pv) (previews s) \<noteq> None"
    by (auto simp: find_None_iff)
  then show ?thesis
    by (auto simp: findUnique_def)
qed

lemma deletePreview_authorised:
  assumes "findUnique i s = Some q" and "findProject (projectId q) s = Some pj" and "userId pj = uid"
  shows "snd (deletePreview e s (Some uid) i) =
     setRow i (\<lambda>p. p\<lparr>status := Deleted, url := None, containerName := None,
                       buildCompletedAt := Some (now e DeletedAt)\<rparr>) s"
  using assms
  by (auto simp: deletePreview_def updatePreview_found findUnique_setRow emit_def)

lemma deletePreview_state:
  "snd (deletePreview e s ru i) = s \<or>
   snd (deletePreview e s ru i) =
     setRow i (\<lambda>p. p\<lparr>status := Deleted, url := None, containerName := None,
                       buildCompletedAt := Some (now e DeletedAt)\<rparr>) s"
  by (auto simp: deletePreview_def updatePreview_def findUnique_setRow emit_def
           split: option.splits sum.splits)

lemma handlePRClosed_state:
  "snd (handlePRClosed e s proj n) =
     (case findByPR (project_id proj) n s of
        None \<Rightarrow> s
      | Some pv \<Rightarrow> setRow (preview_id pv) (\<lambda>p. p\<lparr>status := Deleted, url := None\<rparr>) s)"
proof (cases "findByPR (project_id proj) n s")
  case None
  then show ?thesis by (simp add: handlePRClosed_def)
next
  case (Some pv)
  then obtain q where "findUnique (preview_id pv) s = Some q"
    using findByPR_row by blast
  then show ?thesis
    using Some by (auto simp: handlePRClosed_def updatePreview_found emit_def)
qed

lemma inv_setRow:
  assumes inv: "storeInv s"
    and idp: "\<And>p. preview_id (f p) = preview_id p"
    and step: "\<And>p. findUnique i s = Some p \<Longrightarrow> previewInv (f p)"
  shows "storeInv (setRow i f s)"
  using inv step by (auto simp: storeInv_def findUnique_setRow idp split: if_splits)

lemma buildPreview_missing:
  "findUnique i s = None \<Longrightarrow> buildPreview e s proj i path pr = (Inl RecordNotFound, s)"
  by (simp add: buildPreview_def updatePreview_def)

lemma buildPreview_status:
  assumes "findUnique i s = Some p0"
  shows "\<exists>p'. findUnique i (snd (buildPreview e s proj i path pr)) = Some p' \<and>
           (status p' = Live \<and> url p' \<noteq> None \<and> port p' \<noteq> None \<or> status p' = Error)"
proof -
  obtain r s' where res: "buildPreview e s proj i path pr = (r, s')"
    by (cases "buildPreview e s proj i path pr") auto
  show ?thesis
    using buildPreview_row [OF assms res] res by (cases r) auto
qed

lemma buildPreview_others:
  assumes "j \<noteq> i"
  shows "findUnique j (snd (buildPreview e s proj i path pr)) = findUnique j s"
proof (cases "findUnique i s")
  case None
  then show ?thesis by (simp add: buildPreview_missing)
next
  case (Some p0)
  obtain r s' where res: "buildPreview e s proj i path pr = (r, s')"
    by (cases "buildPreview e s proj i path pr") auto
  show ?thesis
    using buildPreview_row [OF Some res] res assms by auto
qed

lemma inv_buildPreview:
  assumes inv': "storeInv s"
  shows "storeInv (snd (buildPreview e s proj i path pr))"
  unfolding storeInv_def
proof (intro allI impI)
  note inv = inv' [unfolded storeInv_def]
  fix j p
  assume a: "findUnique j (snd (buildPreview e s proj i path pr)) = Some p"
  show "previewInv p"
  proof (cases "j = i")
    case False
    then show ?thesis
      using a inv by (simp add: buildPreview_others)
  next
    case True
    show ?thesis
    proof (cases "findUnique i s")
      case None
      then show ?thesis
        using a inv True by (simp add: buildPreview_missing)
    next
      case (Some p0)
      then show ?thesis
        using buildPreview_status [OF Some, of e proj path pr] a True
        by (auto simp: previewInv_def)
    qed
  qed
qed

lemma inv_rebuildFailed:
  assumes inv': "storeInv s"
  shows "storeInv (snd (rebuildFailed e s i))"
proof (cases "findUnique i s")
  case None
  then show ?thesis
    using inv' by (simp add: rebuildFailed_def updatePreview_def)
next
  case (Some q)
  note inv = inv' [unfolded storeInv_def]
  show ?thesis
    unfolding storeInv_def
  proof (intro allI impI)
    fix j p
    assume a: "findUnique j (snd (rebuildFailed e s i)) = Some p"
    show "previewInv p"
    proof (cases "j = i")
      case True
      then show ?thesis
        using a rebuildFailed_row(1) [OF Some, of e] by (auto simp: previewInv_def)
    next
      case False
      then show ?thesis
        using a inv rebuildFailed_row(2) [OF Some False, of e] by simp
    qed
  qed
qed

lemma inv_deletePreview:
  assumes "storeInv s"
  shows "storeInv (snd (deletePreview e s ru i))"
proof -
  have "storeInv (setRow i (\<lambda>p. p\<lparr>status := Deleted, url := None, containerName := None,
                       buildCompletedAt := Some (now e DeletedAt)\<rparr>) s)"
    using assms by (rule inv_setRow) (simp_all add: previewInv_def)
  then show ?thesis
    using assms deletePreview_state [of e s ru i] by auto
qed

lemma inv_handlePRClosed:
  assumes "storeInv s"
  shows "storeInv (snd (handlePRClosed e s proj n))"
proof -
  have "storeInv (setRow k (\<lambda>p. p\<lparr>status := Deleted, url := None\<rparr>) s)" for k
    using assms by (rule inv_setRow) (simp_all add: previewInv_def)
  then show ?thesis
    using assms by (simp add: handlePRClosed_state split: option.splits)
qed

lemma inv_markRebuild:
  assumes "storeInv s"
  shows "storeInv (setRow i (markRebuild e) s)"
  using assms by (rule inv_setRow) (simp_all add: previewInv_def markRebuild_def)

lemma inv_rebuild:
  assumes inv: "storeInv s"
  shows "storeInv (snd (rebuild e s ru i))"
proof -
  let ?s1 = "setRow i (markRebuild e) s"
  have A: "storeInv ?s1"
    using inv by (rule inv_markRebuild)
  have B: "storeInv s2" if "buildPreview e ?s1 proj i path n = (r, s2)" for proj path n r s2
    using inv_buildPreview [OF A, of e proj i path n] that by simp
  have C: "storeInv (snd (rebuildFailed e s2 i))"
    if "buildPreview e ?s1 proj i path n = (r, s2)" for proj path n r s2
    using inv_rebuildFailed [OF B [OF that]] .
  have D: "storeInv s2'" if "buildPreview e ?s1 proj i path n = (r, s2)"
    and "rebuildFailed e s2 i = (resp, s2')" for proj path n r s2 resp s2'
    using C [OF that(1)] that(2) by simp
  show ?thesis
    using inv A B C D
    by (auto simp: rebuild_def updatePreview_def
             split: option.splits sum.splits prod.splits if_splits)
qed

lemma inv_upsertPreview:
  assumes inv: "storeInv s"
  shows "storeInv (snd (upsertPreview e s proj n))"
proof (cases "findByPR (project_id proj) n s")
  case (Some pv)
  have "storeInv (setRow (preview_id pv) (\<lambda>p. p\<lparr>status := Building\<rparr>) s)"
    using inv by (rule inv_setRow) (simp_all add: previewInv_def)
  then show ?thesis
    using Some by (simp add: upsertPreview_def)
next
  case None
  have "find P (xs @ [x]) = (case find P xs of Some y \<Rightarrow> Some y | None \<Rightarrow> if P x then Some x else None)"
    for P and xs :: "preview list" and x
    by (induction xs) auto
  then show ?thesis
    using None inv
    by (auto simp: upsertPreview_def Let_def storeInv_def findUnique_def previewInv_def
             split: option.splits if_splits)
qed

lemma inv_handlePROpenOrSync:
  assumes inv: "storeInv s"
  shows "storeInv (snd (handlePROpenOrSync e s proj n ref))"
proof -
  obtain pv s1 where up: "upsertPreview e s proj n = (pv, s1)"
    by (cases "upsertPreview e s proj n") auto
  have A: "storeInv s1"
    using inv_upsertPreview [OF inv, of e proj n] up by simp
  have B: "storeInv s2" if "buildPreview e s1 proj k path n = (r, s2)" for k path r s2
    using inv_buildPreview [OF A, of e proj k path n] that by simp
  show ?thesis
    using A B
    by (auto simp: handlePROpenOrSync_def up split: sum.splits prod.splits)
qed

lemma inv_liveStore: "storeInv liveStore"
  by (auto simp: storeInv_def findUnique_def liveStore_def livePreview_def previewInv_def
           split: if_splits)

lemma ex_liveStore_byPR: "findByPR (project_id exProject) 42 liveStore = Some livePreview"
  by (simp add: findByPR_def liveStore_def livePreview_def exProject_def)

text \<open>
  C1 (as the code has it). If every preview of the store satisfies: status
  live implies url and port non-empty, and status deleted implies url empty,
  then so does every preview after a build, after PR-open/sync handling, after
  PR-close handling, after a rebuild and after a delete, whatever their
  outcome. PR-close handling of an existing preview sets status deleted,
  clears url and leaves port as it was; an authorised delete sets status
  deleted, clears url and containerName and leaves port as it was.
\<close>

theorem status_invariant_preserved:
  assumes inv: "storeInv s"
  shows "storeInv (snd (buildPreview e s proj i path n)) \<and>
     storeInv (snd (handlePROpenOrSync e s proj n ref)) \<and>
     storeInv (snd (handlePRClosed e s proj n)) \<and>
     storeInv (snd (rebuild e s ru i)) \<and>
     storeInv (snd (deletePreview e s ru i)) \<and>
     (\<forall>pv q. findByPR (project_id proj) n s = Some pv \<and> findUnique (preview_id pv) s = Some q \<longrightarrow>
        (\<exists>q'. findUnique (preview_id pv) (snd (handlePRClosed e s proj n)) = Some q' \<and>
              status q' = Deleted \<and> url q' = None \<and> port q' = port q)) \<and>
     (\<forall>q pj uid. findUnique i s = Some q \<and> findProject (projectId q) s = Some pj \<and> userId pj = uid \<longrightarrow>
        (\<exists>q'. findUnique i (snd (deletePreview e s (Some uid) i)) = Some q' \<and>
              status q' = Deleted \<and> url q' = None \<and> containerName q' = None \<and>
              port q' = port q))"
proof -
  have closed: "\<exists>q'. findUnique (preview_id pv) (snd (handlePRClosed e s proj n)) = Some q' \<and>
              status q' = Deleted \<and> url q' = None \<and> port q' = port q"
    if "findByPR (project_id proj) n s = Some pv" and "findUnique (preview_id pv) s = Some q" for pv q
    using that by (simp add: handlePRClosed_state findUnique_setRow)
  have deleted: "\<exists>q'. findUnique i (snd (deletePreview e s (Some uid) i)) = Some q' \<and>
              status q' = Deleted \<and> url q' = None \<and> containerName q' = None \<and>
              port q' = port q"
    if "findUnique i s = Some q" and "findProject (projectId q) s = Some pj" and "userId pj = uid"
    for q pj uid
    using that by (simp add: deletePreview_authorised findUnique_setRow)
  have closed': "\<forall>pv q. findByPR (project_id proj) n s = Some pv \<and>
        findUnique (preview_id pv) s = Some q \<longrightarrow>
        (\<exists>q'. findUnique (preview_id pv) (snd (handlePRClosed e s proj n)) = Some q' \<and>
              status q' = Deleted \<and> url q' = None \<and> port q' = port q)"
    using closed by blast
  have deleted': "\<forall>q pj uid. findUnique i s = Some q \<and> findProject (projectId q) s = Some pj \<and>
        userId pj = uid \<longrightarrow>
        (\<exists>q'. findUnique i (snd (deletePreview e s (Some uid) i)) = Some q' \<and>
              status q' = Deleted \<and> url q' = None \<and> containerName q' = None \<and>
              port q' = port q)"
    using deleted by blast
  show ?thesis
    using inv_buildPreview [OF inv, of e proj i path n]
      inv_handlePROpenOrSync [OF inv, of e proj n ref] inv_handlePRClosed [OF inv, of e proj n]
      inv_rebuild [OF inv, of e ru i] inv_deletePreview [OF inv, of e ru i] closed' deleted'
    by (intro conjI) assumption+
qed

theorem status_invariant_preserved_witness:
  "storeInv liveStore \<and>
   storeInv (snd (rebuild okEnv liveStore (Some ''u1'') ''pv1'')) \<and>
   storeInv (snd (handlePRClosed okEnv liveStore exProject 42)) \<and>
   (\<exists>q'. findUnique ''pv1'' (snd (handlePRClosed okEnv liveStore exProject 42)) = Some q' \<and>
         status q' = Deleted \<and> url q' = None \<and> port q' = Some 5007) \<and>
   (\<exists>q'. findUnique ''pv1'' (snd (deletePreview okEnv liveStore (Some ''u1'') ''pv1'')) = Some q' \<and>
         status q' = Deleted \<and> url q' = None \<and> containerName q' = None \<and>
         port q' = Some 5007)"
proof -
  note T = status_invariant_preserved [OF inv_liveStore,
      of okEnv exProject "''pv1''" "''/tmp/repo''" 42 None "Some ''u1''"]
  have id: "preview_id livePreview = ''pv1''" and pt: "port livePreview = Some 5007"
    by (simp_all add: livePreview_def)
  have auth: "userId exProject = ''u1''"
    by (simp add: exProject_def)
  have a: "\<exists>q'. findUnique ''pv1'' (snd (handlePRClosed okEnv liveStore exProject 42)) = Some q' \<and>
         status q' = Deleted \<and> url q' = None \<and> port q' = Some 5007"
    using T ex_liveStore_byPR ex_liveStore_row id pt by metis
  have b: "\<exists>q'. findUnique ''pv1'' (snd (deletePreview okEnv liveStore (Some ''u1'') ''pv1'')) = Some q' \<and>
         status q' = Deleted \<and> url q' = None \<and> containerName q' = None \<and>
         port q' = Some 5007"
    using T ex_liveStore_row ex_liveStore_project auth pt by metis
  show ?thesis
    using inv_liveStore T a b by blast
qed

text \<open>
  C1 as stated fails: after PR-close handling, and after an explicit delete,
  of the live preview that holds port 5007, the status is deleted and the port
  is still 5007.
\<close>

theorem closed_keeps_port_counterexample:
  "fst (handlePRClosed okEnv liveStore exProject 42) = Inr () \<and>
   map status (previews (snd (handlePRClosed okEnv liveStore exProject 42))) = [Deleted] \<and>
   map url (previews (snd (handlePRClosed okEnv liveStore exProject 42))) = [None] \<and>
   map port (previews (snd (handlePRClosed okEnv liveStore exProject 42))) = [Some 5007] \<and>
   map containerName (previews (snd (handlePRClosed okEnv liveStore exProject 42))) =
     [Some ''preview-pckv9x2a1-pr42-b1''] \<and>
   fst (deletePreview okEnv liveStore (Some ''u1'') ''pv1'') = DeleteOk \<and>
   map status (previews (snd (deletePreview okEnv liveStore (Some ''u1'') ''pv1''))) = [Deleted] \<and>
   map port (previews (snd (deletePreview okEnv liveStore (Some ''u1'') ''pv1''))) = [Some 5007]"
  by (simp add: eval_defs example_defs)

section \<open>Leaving the deleted state\<close>

lemma buildPreview_started:
  assumes "findUnique i s = Some p0"
  shows "\<exists>p'. findUnique i (snd (buildPreview e s proj i path pr)) = Some p' \<and>
           buildStartedAt p' = Some (now e BuildStarted) \<and>
           (status p' = Live \<or> status p' = Error)"
proof -
  obtain r s' where res: "buildPreview e s proj i path pr = (r, s')"
    by (cases "buildPreview e s proj i path pr") auto
  show ?thesis
    using buildPreview_row [OF assms res] res by (cases r) auto
qed

lemma handlePROpenOrSync_existing:
  assumes byPR: "findByPR (project_id proj) n s = Some p0"
    and row: "findUnique i s = Some p0"
  shows "\<exists>p'. findUnique i (snd (handlePROpenOrSync e s proj n ref)) = Some p' \<and>
           (status p' = Building \<or> status p' = Live \<or> status p' = Error)"
proof -
  let ?s1 = "setRow i (\<lambda>p. p\<lparr>status := Building\<rparr>) s"
  have id: "preview_id p0 = i"
    using row by (rule findUnique_id)
  have up: "upsertPreview e s proj n = (p0\<lparr>status := Building\<rparr>, ?s1)"
    using byPR id by (simp add: upsertPreview_def)
  have row1: "findUnique i ?s1 = Some (p0\<lparr>status := Building\<rparr>)"
    by (simp add: findUnique_setRow row)
  have fin: "snd (handlePROpenOrSync e s proj n ref) = ?s1 \<or>
      (\<exists>path. snd (handlePROpenOrSync e s proj n ref) = snd (buildPreview e ?s1 proj i path n))"
    by (auto simp: handlePROpenOrSync_def up id split_beta split: sum.splits)
  show ?thesis
    using fin
  proof
    assume "snd (handlePROpenOrSync e s proj n ref) = ?s1"
    then show ?thesis
      using row1 by simp
  next
    assume "\<exists>path. snd (handlePROpenOrSync e s proj n ref) = snd (buildPreview e ?s1 proj i path n)"
    then obtain path where f: "snd (handlePROpenOrSync e s proj n ref) =
        snd (buildPreview e ?s1 proj i path n)"
      by blast
    obtain p' where "findUnique i (snd (buildPreview e ?s1 proj i path n)) = Some p'"
      and "status p' = Live \<or> status p' = Error"
      using buildPreview_started [OF row1, of e proj path n] by blast
    then show ?thesis
      unfolding f by (intro exI [of _ p']) simp
  qed
qed

lemma rebuild_started:
  assumes row: "findUnique i s = Some p0"
    and proj: "findProject (projectId p0) s = Some pj"
    and auth: "userId pj = uid"
  shows "\<exists>p'. findUnique i (snd (rebuild e s (Some uid) i)) = Some p' \<and>
      (status p' = Building \<or> status p' = Live \<or> status p' = Error) \<and>
      (\<not> emitThrows e RebuildBuilding \<and>
       cloneRepo e (repoOwner pj) (repoName pj) None = Inr path \<longrightarrow>
         buildStartedAt p' = Some (now e BuildStarted) \<and>
         (status p' = Live \<or> status p' = Error))"
proof (cases "\<not> emitThrows e RebuildBuilding \<and>
       (\<exists>path. cloneRepo e (repoOwner pj) (repoName pj) None = Inr path)")
  case False
  then have "emitThrows e RebuildBuilding \<or>
      (\<exists>err. cloneRepo e (repoOwner pj) (repoName pj) None = Inl err)"
    by (cases "cloneRepo e (repoOwner pj) (repoName pj) None") auto
  then have "rebuild e s (Some uid) i = (Unexpected500, setRow i (markRebuild e) s)"
    using rebuild_not_started [OF row proj auth] by blast
  then show ?thesis
    using False row by (auto simp: findUnique_setRow markRebuild_def)
next
  case True
  then obtain path' where emit: "\<not> emitThrows e RebuildBuilding"
    and clone: "cloneRepo e (repoOwner pj) (repoName pj) None = Inr path'"
    by blast
  let ?s1 = "setRow i (markRebuild e) s"
  obtain r s2 where build: "buildPreview e ?s1 pj i path' (prNumber p0) = (r, s2)"
    by (cases "buildPreview e ?s1 pj i path' (prNumber p0)") auto
  have row1: "findUnique i ?s1 = Some (markRebuild e p0)"
    by (simp add: findUnique_setRow row)
  obtain p2 where row2: "findUnique i s2 = Some p2"
    and st2: "buildStartedAt p2 = Some (now e BuildStarted)"
    and ss2: "status p2 = Live \<or> status p2 = Error"
    using buildPreview_started [OF row1, of e pj path' "prNumber p0"] build by auto
  have fin: "snd (rebuild e s (Some uid) i) = s2 \<or>
             snd (rebuild e s (Some uid) i) = snd (rebuildFailed e s2 i)"
    unfolding rebuild_authorised [OF row proj auth emit clone build]
    by (cases r) auto
  have "\<exists>p'. findUnique i (snd (rebuild e s (Some uid) i)) = Some p' \<and>
      buildStartedAt p' = Some (now e BuildStarted) \<and> (status p' = Live \<or> status p' = Error)"
    using fin row2 st2 ss2 rebuildFailed_row(1) [OF row2, of e] by auto
  then show ?thesis
    by auto
qed

lemma handlePROpenOrSync_built:
  assumes byPR: "findByPR (project_id proj) n s = Some p0"
    and row: "findUnique i s = Some p0"
    and emit: "\<not> emitThrows e OpenSyncBuilding"
    and clone: "cloneRepo e (repoOwner proj) (repoName proj) ref = Inr path"
  shows "snd (handlePROpenOrSync e s proj n ref) =
           snd (buildPreview e (setRow i (\<lambda>p. p\<lparr>status := Building\<rparr>) s) proj i path n)"
proof -
  have id: "preview_id p0 = i"
    using row by (rule findUnique_id)
  have up: "upsertPreview e s proj n =
      (p0\<lparr>status := Building\<rparr>, setRow i (\<lambda>p. p\<lparr>status := Building\<rparr>) s)"
    using byPR id by (simp add: upsertPreview_def)
  show ?thesis
    using emit clone
    by (auto simp: handlePROpenOrSync_def up id emit_def split_beta split: sum.splits)
qed

lemma rebuild_built:
  assumes row: "findUnique i s = Some p0"
    and proj: "findProject (projectId p0) s = Some pj"
    and auth: "userId pj = uid"
    and emit: "\<not> emitThrows e RebuildBuilding"
    and clone: "cloneRepo e (repoOwner pj) (repoName pj) None = Inr path"
  shows "snd (rebuild e s (Some uid) i) =
           snd (buildPreview e (setRow i (markRebuild e) s) pj i path (prNumber p0)) \<or>
         snd (rebuild e s (Some uid) i) =
           snd (rebuildFailed e
                 (snd (buildPreview e (setRow i (markRebuild e) s) pj i path (prNumber p0))) i)"
proof -
  obtain r s2 where build:
    "buildPreview e (setRow i (markRebuild e) s) pj i path (prNumber p0) = (r, s2)"
    by (cases "buildPreview e (setRow i (markRebuild e) s) pj i path (prNumber p0)") auto
  show ?thesis
    unfolding rebuild_authorised [OF row proj auth emit clone build] build
    by (cases r) auto
qed

lemma ex_deletedStore_row:
  "findUnique ''pv1'' deletedStore =
     Some (livePreview\<lparr>status := Deleted, url := None, containerName := None\<rparr>)"
  by (simp add: findUnique_def deletedStore_def livePreview_def)

lemma ex_deletedStore_byPR:
  "findByPR (project_id exProject) 42 deletedStore =
     Some (livePreview\<lparr>status := Deleted, url := None, containerName := None\<rparr>)"
  by (simp add: findByPR_def deletedStore_def livePreview_def exProject_def)

lemma ex_deleted_sync:
  "map status (previews (snd (buildPreview okEnv
       (setRow ''pv1'' (\<lambda>p. p\<lparr>status := Building\<rparr>) deletedStore) exProject ''pv1''
       ''/tmp/repo'' 42))) = [Live]"
  by (simp add: eval_defs example_defs deletedStore_def)

text \<open>
  C5 (as the code has it). For a preview whose status is deleted: a delete
  request and PR-close handling leave it deleted; PR-open/sync handling for
  its pull request and an authorised rebuild are accepted and leave it in a
  status other than deleted. When the building event is emitted and the clone
  succeeds, each of the two runs a new build attempt: the store the handler
  leaves is the store \<open>buildPreview\<close> leaves on the row set to building, the
  store the rebuild leaves is that of \<open>buildPreview\<close> or of the route's error
  marking after it, and the preview ends live or in error with the attempt's
  start time.
\<close>

theorem deleted_not_terminal:
  assumes row: "findUnique i s = Some p0"
    and del: "status p0 = Deleted"
  shows "(\<exists>p'. findUnique i (snd (deletePreview e s ru i)) = Some p' \<and> status p' = Deleted) \<and>
     (findByPR (project_id proj) n s = Some p0 \<longrightarrow>
        (\<exists>p'. findUnique i (snd (handlePRClosed e s proj n)) = Some p' \<and> status p' = Deleted) \<and>
        (\<exists>p'. findUnique i (snd (handlePROpenOrSync e s proj n ref)) = Some p' \<and>
              status p' \<noteq> Deleted \<and>
              (\<not> emitThrows e OpenSyncBuilding \<and>
               cloneRepo e (repoOwner proj) (repoName proj) ref = Inr path \<longrightarrow>
                 snd (handlePROpenOrSync e s proj n ref) =
                   snd (buildPreview e (setRow i (\<lambda>p. p\<lparr>status := Building\<rparr>) s) proj i path n) \<and>
                 buildStartedAt p' = Some (now e BuildStarted) \<and>
                 (status p' = Live \<or> status p' = Error)))) \<and>
     (findProject (projectId p0) s = Some pj \<and> userId pj = uid \<longrightarrow>
        (\<exists>p'. findUnique i (snd (rebuild e s (Some uid) i)) = Some p' \<and>
              status p' \<noteq> Deleted \<and>
              (\<not> emitThrows e RebuildBuilding \<and>
               cloneRepo e (repoOwner pj) (repoName pj) None = Inr path \<longrightarrow>
                 (snd (rebuild e s (Some uid) i) =
                    snd (buildPreview e (setRow i (markRebuild e) s) pj i path (prNumber p0)) \<or>
                  snd (rebuild e s (Some uid) i) =
                    snd (rebuildFailed e
                          (snd (buildPreview e (setRow i (markRebuild e) s) pj i path (prNumber p0)))
                          i)) \<and>
                 buildStartedAt p' = Some (now e BuildStarted) \<and>
                 (status p' = Live \<or> status p' = Error))))"
proof -
  have id: "preview_id p0 = i"
    using row by (rule findUnique_id)
  have a: "\<exists>p'. findUnique i (snd (deletePreview e s ru i)) = Some p' \<and> status p' = Deleted"
    using deletePreview_state [of e s ru i] row del by (auto simp: findUnique_setRow)
  have b: "\<exists>p'. findUnique i (snd (handlePRClosed e s proj n)) = Some p' \<and> status p' = Deleted"
    if "findByPR (project_id proj) n s = Some p0"
    using that row id by (simp add: handlePRClosed_state findUnique_setRow)
  have c: "\<exists>p'. findUnique i (snd (handlePROpenOrSync e s proj n ref)) = Some p' \<and>
              status p' \<noteq> Deleted \<and>
              (\<not> emitThrows e OpenSyncBuilding \<and>
               cloneRepo e (repoOwner proj) (repoName proj) ref = Inr path \<longrightarrow>
                 snd (handlePROpenOrSync e s proj n ref) =
                   snd (buildPreview e (setRow i (\<lambda>p. p\<lparr>status := Building\<rparr>) s) proj i path n) \<and>
                 buildStartedAt p' = Some (now e BuildStarted) \<and>
                 (status p' = Live \<or> status p' = Error))"
    if byPR: "findByPR (project_id proj) n s = Some p0"
  proof (cases "\<not> emitThrows e OpenSyncBuilding \<and>
               cloneRepo e (repoOwner proj) (repoName proj) ref = Inr path")
    case False
    then show ?thesis
      using handlePROpenOrSync_existing [OF byPR row, of e ref] by auto
  next
    case True
    let ?s1 = "setRow i (\<lambda>p. p\<lparr>status := Building\<rparr>) s"
    have fin: "snd (handlePROpenOrSync e s proj n ref) = snd (buildPreview e ?s1 proj i path n)"
      using handlePROpenOrSync_built [OF byPR row] True by blast
    have row1: "findUnique i ?s1 = Some (p0\<lparr>status := Building\<rparr>)"
      by (simp add: findUnique_setRow row)
    obtain p' where "findUnique i (snd (buildPreview e ?s1 proj i path n)) = Some p'"
      and "buildStartedAt p' = Some (now e BuildStarted)"
      and "status p' = Live \<or> status p' = Error"
      using buildPreview_started [OF row1, of e proj path n] by blast
    then show ?thesis
      using fin by (intro exI [of _ p']) auto
  qed
  have d: "\<exists>p'. findUnique i (snd (rebuild e s (Some uid) i)) = Some p' \<and>
              status p' \<noteq> Deleted \<and>
              (\<not> emitThrows e RebuildBuilding \<and>
               cloneRepo e (repoOwner pj) (repoName pj) None = Inr path \<longrightarrow>
                 (snd (rebuild e s (Some uid) i) =
                    snd (buildPreview e (setRow i (markRebuild e) s) pj i path (prNumber p0)) \<or>
                  snd (rebuild e s (Some uid) i) =
                    snd (rebuildFailed e
                          (snd (buildPreview e (setRow i (markRebuild e) s) pj i path (prNumber p0)))
                          i)) \<and>
                 buildStartedAt p' = Some (now e BuildStarted) \<and>
                 (status p' = Live \<or> status p' = Error))"
    if pj: "findProject (projectId p0) s = Some pj" and auth: "userId pj = uid"
  proof -
    obtain p' where p': "findUnique i (snd (rebuild e s (Some uid) i)) = Some p'"
      and st: "status p' = Building \<or> status p' = Live \<or> status p' = Error"
      and run: "\<not> emitThrows e RebuildBuilding \<and>
         cloneRepo e (repoOwner pj) (repoName pj) None = Inr path \<longrightarrow>
         buildStartedAt p' = Some (now e BuildStarted) \<and>
         (status p' = Live \<or> status p' = Error)"
      using rebuild_started [OF row pj auth, of e path] by blast
    have nd: "status p' \<noteq> Deleted"
      using st by auto
    show ?thesis
      using p' nd run rebuild_built [OF row pj auth, of e path]
      by (intro exI [of _ p']) blast
  qed
  show ?thesis
    using a b c d by (intro conjI impI) auto
qed

theorem deleted_not_terminal_witness:
  "findUnique ''pv1'' deletedStore =
     Some (livePreview\<lparr>status := Deleted, url := None, containerName := None\<rparr>) \<and>
   status (livePreview\<lparr>status := Deleted, url := None, containerName := None\<rparr>) = Deleted \<and>
   (\<exists>p'. findUnique ''pv1'' (snd (deletePreview okEnv deletedStore (Some ''u1'') ''pv1'')) = Some p' \<and>
         status p' = Deleted) \<and>
   (\<exists>p'. findUnique ''pv1'' (snd (handlePRClosed okEnv deletedStore exProject 42)) = Some p' \<and>
         status p' = Deleted) \<and>
   (\<exists>p'. findUnique ''pv1'' (snd (handlePROpenOrSync okEnv deletedStore exProject 42 None)) = Some p' \<and>
         buildStartedAt p' = Some (now okEnv BuildStarted) \<and>
         (status p' = Live \<or> status p' = Error)) \<and>
   map status (previews (snd (handlePROpenOrSync okEnv deletedStore exProject 42 None))) = [Live] \<and>
   (\<exists>p'. findUnique ''pv1'' (snd (rebuild okEnv deletedStore (Some ''u1'') ''pv1'')) = Some p' \<and>
         buildStartedAt p' = Some (now okEnv BuildStarted) \<and>
         (status p' = Live \<or> status p' = Error))"
proof -
  have del: "status (livePreview\<lparr>status := Deleted, url := None, containerName := None\<rparr>) = Deleted"
    by simp
  note T = deleted_not_terminal [OF ex_deletedStore_row del,
      of okEnv "Some ''u1''" exProject 42 None "''/tmp/repo''" exProject "''u1''"]
  have pj: "findProject (projectId (livePreview\<lparr>status := Deleted, url := None, containerName := None\<rparr>))
              deletedStore = Some exProject"
    by (simp add: findProject_def deletedStore_def livePreview_def exProject_def)
  have auth: "userId exProject = ''u1''"
    by (simp add: exProject_def)
  have emit: "\<not> emitThrows okEnv RebuildBuilding" "\<not> emitThrows okEnv OpenSyncBuilding"
    by (simp_all add: okEnv_def)
  have clone: "cloneRepo okEnv (repoOwner exProject) (repoName exProject) None = Inr ''/tmp/repo''"
    by (simp add: cloneRepo_def okEnv_def)
  have sync: "snd (handlePROpenOrSync okEnv deletedStore exProject 42 None) =
      snd (buildPreview okEnv (setRow ''pv1'' (\<lambda>p. p\<lparr>status := Building\<rparr>) deletedStore)
             exProject ''pv1'' ''/tmp/repo'' 42)"
    using T ex_deletedStore_byPR emit clone by blast
  have live: "map status (previews (snd (handlePROpenOrSync okEnv deletedStore exProject 42 None))) = [Live]"
    unfolding sync by (rule ex_deleted_sync)
  show ?thesis
    using ex_deletedStore_row del T ex_deletedStore_byPR pj auth emit clone live by auto
qed

text \<open>
  C5 as stated fails: an authorised rebuild of the deleted preview runs a
  build, increments the counter and ends with status live.
\<close>

theorem deleted_rebuild_counterexample:
  "map status (previews deletedStore) = [Deleted] \<and>
   fst (rebuild okEnv deletedStore (Some ''u1'') ''pv1'') = RebuildOk ''http://localhost:5007'' \<and>
   map status (previews (snd (rebuild okEnv deletedStore (Some ''u1'') ''pv1''))) = [Live] \<and>
   map buildNumber (previews (snd (rebuild okEnv deletedStore (Some ''u1'') ''pv1''))) = [3]"
  by (simp add: eval_defs example_defs deletedStore_def)

section \<open>The build counter stays at least 1\<close>

text \<open>
  A created row starts with counter 1, and no operation lowers a counter: the
  hypothesis on the counter in the statements about container names holds in
  every store the operations produce from an empty one.
\<close>

lemma counter_setRow:
  assumes inv: "counterInv s"
    and idp: "\<And>p. preview_id (f p) = preview_id p"
    and step: "\<And>p. buildNumber p \<le> buildNumber (f p)"
  shows "counterInv (setRow i f s)"
  unfolding counterInv_def
proof (intro allI impI)
  fix j p
  assume a: "findUnique j (setRow i f s) = Some p"
  show "0 < buildNumber p"
  proof (cases "j = i")
    case False
    then show ?thesis
      using a inv by (simp add: findUnique_setRow idp counterInv_def)
  next
    case True
    then obtain q where q: "findUnique i s = Some q" and p: "p = f q"
      using a by (auto simp: findUnique_setRow idp)
    have "0 < buildNumber q"
      using inv q by (simp add: counterInv_def)
    then show ?thesis
      using step [of q] p by simp
  qed
qed

lemma counter_buildPreview:
  assumes inv: "counterInv s"
  shows "counterInv (snd (buildPreview e s proj i path pr))"
  unfolding counterInv_def
proof (intro allI impI)
  fix j p
  assume a: "findUnique j (snd (buildPreview e s proj i path pr)) = Some p"
  show "0 < buildNumber p"
  proof (cases "j = i")
    case False
    then show ?thesis
      using a inv by (simp add: buildPreview_others counterInv_def)
  next
    case True
    show ?thesis
    proof (cases "findUnique i s")
      case None
      then show ?thesis
        using a inv True by (simp add: buildPreview_missing counterInv_def)
    next
      case (Some p0)
      obtain r s' where res: "buildPreview e s proj i path pr = (r, s')"
        by (cases "buildPreview e s proj i path pr") auto
      have "0 < buildNumber p0"
        using inv Some by (simp add: counterInv_def)
      then show ?thesis
        using buildPreview_buildNumber [OF Some res] a True res by (auto split: if_splits)
    qed
  qed
qed

lemma counter_rebuildFailed:
  assumes inv: "counterInv s"
  shows "counterInv (snd (rebuildFailed e s i))"
proof (cases "findUnique i s")
  case None
  then show ?thesis
    using inv by (simp add: rebuildFailed_def updatePreview_def)
next
  case (Some q)
  have "snd (rebuildFailed e s i) =
      setRow i (\<lambda>p. p\<lparr>status := Error, buildCompletedAt := Some (now e RebuildFailedAt),
                       url := None, containerName := None\<rparr>) s"
    using Some by (simp add: rebuildFailed_def updatePreview_found findUnique_setRow split: sum.splits)
  then show ?thesis
    using counter_setRow [OF inv, of "\<lambda>p. p\<lparr>status := Error,
        buildCompletedAt := Some (now e RebuildFailedAt), url := None, containerName := None\<rparr>" i]
    by simp
qed

lemma counter_rebuild:
  assumes inv: "counterInv s"
  shows "counterInv (snd (rebuild e s ru i))"
proof -
  let ?s1 = "setRow i (markRebuild e) s"
  have A: "counterInv ?s1"
    using inv by (rule counter_setRow) (simp_all add: markRebuild_def)
  have B: "counterInv s2" if "buildPreview e ?s1 proj i path n = (r, s2)" for proj path n r s2
    using counter_buildPreview [OF A, of e proj i path n] that by simp
  have C: "counterInv (snd (rebuildFailed e s2 i))"
    if "buildPreview e ?s1 proj i path n = (r, s2)" for proj path n r s2
    using counter_rebuildFailed [OF B [OF that]] .
  show ?thesis
    using inv A B C
    by (auto simp: rebuild_def updatePreview_def
             split: option.splits sum.splits prod.splits if_splits)
qed

lemma counter_deletePreview:
  assumes "counterInv s"
  shows "counterInv (snd (deletePreview e s ru i))"
proof -
  have "counterInv (setRow i (\<lambda>p. p\<lparr>status := Deleted, url := None, containerName := None,
                       buildCompletedAt := Some (now e DeletedAt)\<rparr>) s)"
    using assms by (rule counter_setRow) simp_all
  then show ?thesis
    using assms deletePreview_state [of e s ru i] by auto
qed

lemma counter_handlePRClosed:
  assumes "counterInv s"
  shows "counterInv (snd (handlePRClosed e s proj n))"
proof -
  have "counterInv (setRow k (\<lambda>p. p\<lparr>status := Deleted, url := None\<rparr>) s)" for k
    using assms by (rule counter_setRow) simp_all
  then show ?thesis
    using assms by (simp add: handlePRClosed_state split: option.splits)
qed

lemma counter_upsertPreview:
  assumes inv: "counterInv s"
  shows "counterInv (snd (upsertPreview e s proj n))"
proof (cases "findByPR (project_id proj) n s")
  case (Some pv)
  have "counterInv (setRow (preview_id pv) (\<lambda>p. p\<lparr>status := Building\<rparr>) s)"
    using inv by (rule counter_setRow) simp_all
  then show ?thesis
    using Some by (simp add: upsertPreview_def)
next
  case None
  have "find P (xs @ [x]) = (case find P xs of Some y \<Rightarrow> Some y | None \<Rightarrow> if P x then Some x else None)"
    for P and xs :: "preview list" and x
    by (induction xs) auto
  then show ?thesis
    using None inv
    by (auto simp: upsertPreview_def Let_def counterInv_def findUnique_def
             split: option.splits if_splits)
qed

lemma counter_handlePROpenOrSync:
  assumes inv: "counterInv s"
  shows "counterInv (snd (handlePROpenOrSync e s proj n ref))"
proof -
  obtain pv s1 where up: "upsertPreview e s proj n = (pv, s1)"
    by (cases "upsertPreview e s proj n") auto
  have A: "counterInv s1"
    using counter_upsertPreview [OF inv, of e proj n] up by simp
  have B: "counterInv s2" if "buildPreview e s1 proj k path n = (r, s2)" for k path r s2
    using counter_buildPreview [OF A, of e proj k path n] that by simp
  show ?thesis
    using A B
    by (auto simp: handlePROpenOrSync_def up split: sum.splits prod.splits)
qed

lemma counter_empty: "counterInv \<lparr>projects = ps, previews = []\<rparr>"
  by (simp add: counterInv_def findUnique_def)

end
